theory Spec2Isabelle
  imports Complex_Main "HOL-Library.AList"
begin

section \<open>JavaScript strings\<close>

text \<open>
  A string of the content script is modelled as a list of code units below 256
  (the Latin-1 range), which is what \<open>char\<close> holds. Of \<open>String.prototype\<close> the
  classifiers use \<open>trim\<close>, \<open>toLowerCase\<close>, \<open>includes\<close>, \<open>split(/\s+/)\<close> and
  \<open>length\<close>; each is written out here on that range.
\<close>

definition is_space :: "char \<Rightarrow> bool" where
  \<comment> \<open>white space and line terminators below 256: TAB, LF, VT, FF, CR, SP, NBSP\<close>
  "is_space c = (of_char c \<in> set [9, 10, 11, 12, 13, 32, 160 :: nat])"

definition lower_char :: "char \<Rightarrow> char" where
  "lower_char c =
     (let n = (of_char c :: nat) in
      if (65 \<le> n \<and> n \<le> 90) \<or> (192 \<le> n \<and> n \<le> 222 \<and> n \<noteq> 215)
      then char_of (n + 32) else c)"

definition toLowerCase :: "string \<Rightarrow> string" where
  "toLowerCase s = map lower_char s"

definition trim :: "string \<Rightarrow> string" where
  "trim s = rev (dropWhile is_space (rev (dropWhile is_space s)))"

fun startsWith :: "string \<Rightarrow> string \<Rightarrow> bool" where
  \<comment> \<open>\<open>startsWith s p\<close> is \<open>s.startsWith(p)\<close>\<close>
  "startsWith s [] = True"
| "startsWith [] (p # ps) = False"
| "startsWith (c # cs) (p # ps) = (c = p \<and> startsWith cs ps)"

fun js_includes :: "string \<Rightarrow> string \<Rightarrow> bool" where
  \<comment> \<open>\<open>js_includes s p\<close> is \<open>s.includes(p)\<close>\<close>
  "js_includes [] p = (p = [])"
| "js_includes (c # cs) p = (startsWith (c # cs) p \<or> js_includes cs p)"

function split_ws_from :: "string \<Rightarrow> string \<Rightarrow> string list" where
  \<comment> \<open>\<open>split(/\s+/)\<close>: the pieces between the maximal runs of white space; the
      first argument is the piece being read, reversed\<close>
  "split_ws_from cur [] = [rev cur]"
| "split_ws_from cur (c # cs) =
     (if is_space c then rev cur # split_ws_from [] (dropWhile is_space cs)
      else split_ws_from (c # cur) cs)"
  by pat_completeness auto
termination
  by (relation "measure (\<lambda>(cur, s). length s)")
     (auto simp: length_dropWhile_le le_imp_less_Suc)

definition split_ws :: "string \<Rightarrow> string list" where
  "split_ws s = split_ws_from [] s"

section \<open>Document elements\<close>

text \<open>
  An element of the host document, with the attributes and properties the content
  script reads or writes. \<open>attrs\<close> is the attribute list (\<open>getAttribute\<close> is
  \<open>map_of\<close>, a missing attribute is \<open>null\<close>); \<open>el_type\<close> and \<open>el_value\<close> are the
  \<open>type\<close> and \<open>value\<close> properties of a form control; \<open>closestLabel\<close> is the index,
  in the document, of the nearest enclosing \<open>label\<close> element; \<open>outline\<close> and
  \<open>border\<close> are the two style properties the orchestrator uses as status marks;
  \<open>attached\<close> is false once the element has been removed from the document.
\<close>

record element =
  tagName :: string
  attrs :: "(string \<times> string) list"
  textContent :: string
  innerText :: string
  el_type :: string
  el_value :: string
  naturalWidth :: nat
  naturalHeight :: nat
  closestLabel :: "nat option"
  outline :: string
  border :: string
  classList :: "string list"
  attached :: bool

definition getAttribute :: "element \<Rightarrow> string \<Rightarrow> string option" where
  "getAttribute e k = map_of (attrs e) k"

definition setAttribute :: "element \<Rightarrow> string \<Rightarrow> string \<Rightarrow> element" where
  "setAttribute e k v = e\<lparr>attrs := AList.update k v (attrs e)\<rparr>"

definition removeAttribute :: "element \<Rightarrow> string \<Rightarrow> element" where
  "removeAttribute e k = e\<lparr>attrs := AList.delete k (attrs e)\<rparr>"

definition attr_or_empty :: "element \<Rightarrow> string \<Rightarrow> string" where
  \<comment> \<open>\<open>e.getAttribute(k) || ''\<close>, and the reflecting properties \<open>id\<close>, \<open>placeholder\<close>\<close>
  "attr_or_empty e k = (case getAttribute e k of None \<Rightarrow> [] | Some v \<Rightarrow> v)"

section \<open>Issue classifier: links\<close>

definition getLinkText :: "element \<Rightarrow> string" where
  "getLinkText link =
     (let text = (if textContent link \<noteq> [] then textContent link else innerText link);
          text = (if trim text = [] then attr_or_empty link ''aria-label'' else text);
          text = (if trim text = [] then attr_or_empty link ''title'' else text)
      in trim text)"

definition descriptiveWords :: "string list" where
  "descriptiveWords =
     [''home'', ''about'', ''contact'', ''products'', ''services'', ''blog'', ''news'',
      ''support'', ''help'', ''documentation'', ''guide'', ''tutorial'', ''pricing'',
      ''login'', ''signup'', ''register'', ''profile'', ''account'', ''dashboard'',
      ''settings'', ''preferences'', ''cart'', ''checkout'', ''order'', ''search'']"

definition isDescriptiveLinkText :: "string \<Rightarrow> bool" where
  "isDescriptiveLinkText text =
     (let lowerText = trim (toLowerCase text)
      in list_ex (\<lambda>word. js_includes lowerText word) descriptiveWords \<or> length text > 15)"

definition vaguePatterns :: "string list" where
  "vaguePatterns =
     [''click here'', ''here'', ''read more'', ''learn more'', ''more'', ''continue'',
      ''go'', ''view'', ''see'', ''check'', ''find out'', ''discover'', ''explore'',
      ''download'', ''get'', ''try'', ''start'', ''begin'', ''next'', ''previous'',
      ''back'', ''forward'', ''submit'', ''send'', ''contact'', ''call'', ''email'',
      ''link'', ''button'', ''this'', ''that'', ''it'', ''details'', ''info'',
      ''page'', ''site'', ''website'', ''portal'', ''platform'', ''tool'']"

definition needsBetterLinkText_of :: "string \<Rightarrow> bool" where
  \<comment> \<open>the body of \<open>needsBetterLinkText\<close> after \<open>const linkText = getLinkText(link)\<close>\<close>
  "needsBetterLinkText_of linkText =
     (if linkText = [] \<or> trim linkText = [] then False
      else
        let lowerText = trim (toLowerCase linkText);
            words = split_ws lowerText
        in if length words \<le> 3 \<and>
              list_ex (\<lambda>pattern. lowerText = pattern \<or> js_includes lowerText pattern \<or>
                         list_ex (\<lambda>word. word = pattern) words) vaguePatterns
           then True
           else if length linkText \<le> 8 \<and> \<not> isDescriptiveLinkText linkText then True
           else False)"

definition needsBetterLinkText :: "element \<Rightarrow> bool" where
  "needsBetterLinkText link = needsBetterLinkText_of (getLinkText link)"

text \<open>
  The vagueness heuristic in the words of the specification: a text of at most three
  words that contains a phrase of the lexicon, or a text of at most eight characters
  that fails the descriptive check.
\<close>

definition vague_link_heuristic :: "string \<Rightarrow> bool" where
  "vague_link_heuristic t =
     ((length (split_ws (trim (toLowerCase t))) \<le> 3 \<and>
       list_ex (\<lambda>p. js_includes (trim (toLowerCase t)) p) vaguePatterns) \<or>
      (length t \<le> 8 \<and> \<not> isDescriptiveLinkText t))"

text \<open>An anchor whose only content is the given text.\<close>

definition text_link :: "string \<Rightarrow> element" where
  "text_link t =
     \<lparr>tagName = ''A'', attrs = [(''href'', ''/'')], textContent = t, innerText = t,
      el_type = [], el_value = [], naturalWidth = 0, naturalHeight = 0,
      closestLabel = None, outline = [], border = [], classList = [], attached = True\<rparr>"


section \<open>Capture renderer\<close>

text \<open>
  A capture is the JPEG a canvas is encoded to: its size, the quality given to
  \<open>toDataURL\<close>, and whether the target was drawn from its source or as a placeholder.
  Lengths of the page are real numbers. Assigning \<open>canvas.width\<close> converts the number
  to an unsigned 32-bit integer (truncation, modulo \<open>2^32\<close>) and takes the default
  when the result is above \<open>2^31 - 1\<close>; the defaults are 300 and 150.

  The script computes in double precision: a sum, difference, product or quotient
  is the exact result rounded to the nearest double. The rounding is a function the
  capture is given (\<open>fl\<close>, or the field \<open>rounding\<close> of its environment).
  \<open>double_rounding\<close> is what the bounds below use of rounding to nearest: it is
  monotone, it keeps 0, and it stays within the relative error \<open>2^-53\<close> on the
  normal range, from \<open>2^-1022\<close> to \<open>2^1023\<close>. The products \<open>padding * 2\<close> and
  \<open>margin * 2\<close> are exact. Beyond the largest double the script computes with
  \<open>Infinity\<close>; the captures take the smaller of such a number and a length of the
  viewport, for which any large number stands as well.
\<close>

definition double_rounding :: "(real \<Rightarrow> real) \<Rightarrow> bool" where
  "double_rounding fl =
     ((\<forall>x y. x \<le> y \<longrightarrow> fl x \<le> fl y) \<and> fl 0 = 0 \<and>
      (\<forall>x. 1 / 2 ^ 1022 \<le> \<bar>x\<bar> \<and> \<bar>x\<bar> \<le> 2 ^ 1023 \<longrightarrow> \<bar>fl x - x\<bar> \<le> \<bar>x\<bar> / 2 ^ 53))"

datatype drawn = Rendered | Placeholder

record capture =
  cwidth :: int
  cheight :: int
  quality :: real
  drawn :: drawn

definition canvas_dim :: "int \<Rightarrow> real \<Rightarrow> int" where
  "canvas_dim dflt v =
     (let n = (if 0 \<le> v then \<lfloor>v\<rfloor> else \<lceil>v\<rceil>) mod 2 ^ 32
      in if n \<le> 2147483647 then n else dflt)"

definition isolated_quality :: real where
  \<comment> \<open>\<open>toDataURL('image/jpeg', 0.8)\<close>\<close>
  "isolated_quality = 8 / 10"

definition context_quality :: real where
  \<comment> \<open>\<open>toDataURL('image/jpeg', 0.6)\<close>\<close>
  "context_quality = 6 / 10"

definition canvas :: "real \<Rightarrow> real \<Rightarrow> real \<Rightarrow> drawn \<Rightarrow> capture" where
  "canvas w h q c = \<lparr>cwidth = canvas_dim 300 w, cheight = canvas_dim 150 h, quality = q, drawn = c\<rparr>"

record rect =
  r_left :: real
  r_top :: real
  r_width :: real
  r_height :: real

record viewport =
  innerWidth :: real
  innerHeight :: real

text \<open>
  The captures of form fields and links draw at once. \<open>drawn_ok\<close> says that the
  \<open>try\<close> block ran through; otherwise the \<open>catch\<close> draws the fixed fallback. A capture
  function gives the time in milliseconds at which its promise resolves and the value,
  or \<open>None\<close> when the promise never settles; no path of the script calls \<open>reject\<close>.
\<close>

definition captureInputField ::
  "(real \<Rightarrow> real) \<Rightarrow> rect \<Rightarrow> bool \<Rightarrow> (nat \<times> capture) option" where
  "captureInputField fl r drawn_ok =
     Some (0, if drawn_ok
              then canvas (max 200 (fl (r_width r + 10 * 2))) (max 50 (fl (r_height r + 10 * 2)))
                     isolated_quality Rendered
              else canvas 300 60 isolated_quality Placeholder)"

definition contextCanvas ::
  "(real \<Rightarrow> real) \<Rightarrow> real \<Rightarrow> rect \<Rightarrow> viewport \<Rightarrow> drawn \<Rightarrow> capture" where
  \<comment> \<open>the canvas of a context capture with a fixed padding\<close>
  "contextCanvas fl padding r win c =
     (let cw = min (innerWidth win) (fl (r_width r + padding * 2));
          ch = min (innerHeight win) (fl (r_height r + padding * 2))
      in canvas (min 800 cw) (min 600 ch) context_quality c)"

definition captureInputWithContext ::
  "(real \<Rightarrow> real) \<Rightarrow> rect \<Rightarrow> viewport \<Rightarrow> bool \<Rightarrow> (nat \<times> capture) option" where
  "captureInputWithContext fl r win drawn_ok =
     Some (0, if drawn_ok then contextCanvas fl 150 r win Rendered
              else canvas 400 300 context_quality Placeholder)"

definition captureLinkElement ::
  "(real \<Rightarrow> real) \<Rightarrow> rect \<Rightarrow> bool \<Rightarrow> (nat \<times> capture) option" where
  "captureLinkElement fl r drawn_ok =
     Some (0, if drawn_ok
              then canvas (max 200 (fl (r_width r + 10 * 2))) (max 40 (fl (r_height r + 10 * 2)))
                     isolated_quality Rendered
              else canvas 300 50 isolated_quality Placeholder)"

definition captureLinkWithContext ::
  "(real \<Rightarrow> real) \<Rightarrow> rect \<Rightarrow> viewport \<Rightarrow> bool \<Rightarrow> (nat \<times> capture) option" where
  "captureLinkWithContext fl r win drawn_ok =
     Some (0, if drawn_ok then contextCanvas fl 150 r win Rendered
              else canvas 400 300 context_quality Placeholder)"

text \<open>
  Images load in the background. A load either fires \<open>onload\<close> after some time, with
  the size of the image and whether \<open>drawImage\<close> then returns, or fires \<open>onerror\<close>
  after some time, or fires nothing. The environment of an image capture gives the
  outcome of the first load (requested with \<open>crossOrigin = 'anonymous'\<close>), of the second
  load (requested without it, 2000 ms later, if the first has not completed), and
  whether the source is of another origin. An image of another origin that was loaded
  without CORS taints the canvas it is drawn on: \<open>toDataURL\<close> then throws a
  SecurityError, until the canvas is resized.
\<close>

datatype load = Loads nat nat nat bool | Errors nat | NeverSettles

record media_env =
  rounding :: "real \<Rightarrow> real"
  setup_ok :: bool
  cross_origin :: bool
  load1 :: load
  load2 :: load

fun completes_by :: "load \<Rightarrow> nat \<Rightarrow> bool" where
  \<comment> \<open>\<open>img.complete\<close> at the given time\<close>
  "completes_by (Loads t w h dok) T = (t \<le> T)"
| "completes_by (Errors t) T = (t \<le> T)"
| "completes_by NeverSettles T = False"

datatype handler = OnLoad1 nat nat bool | OnError | OnLoad2 nat nat bool | Timeout

fun load_events :: "nat \<Rightarrow> bool \<Rightarrow> load \<Rightarrow> (nat \<times> handler) list" where
  "load_events start second (Loads t w h dok) =
     [(start + t, if second then OnLoad2 w h dok else OnLoad1 w h dok)]"
| "load_events start second (Errors t) = [(start + t, OnError)]"
| "load_events start second NeverSettles = []"

fun insert_event :: "(nat \<times> handler) \<Rightarrow> (nat \<times> handler) list \<Rightarrow> (nat \<times> handler) list" where
  "insert_event e [] = [e]"
| "insert_event e (x # xs) = (if fst x \<le> fst e then x # insert_event e xs else e # x # xs)"

definition in_time_order :: "(nat \<times> handler) list \<Rightarrow> (nat \<times> handler) list" where
  "in_time_order es = foldl (\<lambda>acc e. insert_event e acc) [] es"

definition image_events :: "media_env \<Rightarrow> (nat \<times> handler) list" where
  \<comment> \<open>the handlers of an image capture in the order they run; of two that are due at
      the same time, the one of the earlier load runs first and the timer last\<close>
  "image_events env =
     in_time_order
       (load_events 0 False (load1 env) @
        (if \<not> completes_by (load1 env) 2000 then load_events 2000 True (load2 env) else []) @
        [(10000, Timeout)])"

text \<open>
  The state of a capture in progress: whether the canvas is tainted, and what the
  promise has resolved to. Only the first call of \<open>resolve\<close> counts.
\<close>

type_synonym capture_state = "bool \<times> (nat \<times> capture) option"

definition resolve :: "nat \<Rightarrow> capture \<Rightarrow> capture_state \<Rightarrow> capture_state" where
  "resolve t c s = (fst s, case snd s of None \<Rightarrow> Some (t, c) | Some x \<Rightarrow> Some x)"

definition scaled :: "(real \<Rightarrow> real) \<Rightarrow> nat \<Rightarrow> nat \<Rightarrow> real \<times> real" where
  \<comment> \<open>\<open>if (width > maxSize || height > maxSize) { ratio = Math.min(maxSize / width,
      maxSize / height); width *= ratio; height *= ratio }\<close>; a division by zero gives
      \<open>Infinity\<close>, which \<open>Math.min\<close> discards\<close>
  "scaled fl w h =
     (if w > 800 \<or> h > 800
      then (let ratio = (if w = 0 then fl (800 / real h)
                         else if h = 0 then fl (800 / real w)
                         else min (fl (800 / real w)) (fl (800 / real h)))
            in (fl (real w * ratio), fl (real h * ratio)))
      else (real w, real h))"

definition rendered :: "(real \<Rightarrow> real) \<Rightarrow> nat \<Rightarrow> nat \<Rightarrow> capture" where
  "rendered fl w h = canvas (fst (scaled fl w h)) (snd (scaled fl w h)) isolated_quality Rendered"

definition imageFallback :: capture where
  \<comment> \<open>\<open>createImageFallback\<close> and \<open>createSVGFallback\<close>\<close>
  "imageFallback = canvas 400 300 isolated_quality Placeholder"

definition imageOnlyHandler :: "media_env \<Rightarrow> capture_state \<Rightarrow> nat \<times> handler \<Rightarrow> capture_state" where
  \<comment> \<open>every handler of \<open>captureImageOnly\<close> resizes the canvas before it draws\<close>
  "imageOnlyHandler env s e =
     (case snd e of
        OnLoad1 w h dok \<Rightarrow>
          resolve (fst e) (if dok then rendered (rounding env) w h else imageFallback) s
      | OnLoad2 w h dok \<Rightarrow>
          resolve (fst e)
            (if dok \<and> \<not> cross_origin env then rendered (rounding env) w h else imageFallback) s
      | OnError \<Rightarrow> resolve (fst e) imageFallback s
      | Timeout \<Rightarrow> resolve (fst e) imageFallback s)"

definition captureRegularImage :: "media_env \<Rightarrow> (nat \<times> capture) option" where
  \<comment> \<open>\<open>captureImageOnly\<close> for a source that is not a vector graphic\<close>
  "captureRegularImage env =
     (if \<not> setup_ok env then Some (0, canvas 300 200 isolated_quality Placeholder)
      else snd (foldl (imageOnlyHandler env) (False, None) (image_events env)))"

definition imageContextCanvas ::
  "(real \<Rightarrow> real) \<Rightarrow> rect \<Rightarrow> viewport \<Rightarrow> drawn \<Rightarrow> capture" where
  "imageContextCanvas fl r win c =
     (let margin = fl (max (r_width r) (r_height r) * (15 / 10));
          cw = min (innerWidth win) (fl (r_width r + margin * 2));
          ch = min (innerHeight win) (fl (r_height r + margin * 2))
      in canvas (min 800 cw) (min 600 ch) context_quality c)"

definition imageContextHandler ::
  "rect \<Rightarrow> viewport \<Rightarrow> media_env \<Rightarrow> capture_state \<Rightarrow> nat \<times> handler \<Rightarrow> capture_state" where
  \<comment> \<open>the handlers of \<open>captureImageWithContext\<close> draw on the one canvas and never
      resize it; on a tainted canvas the \<open>toDataURL\<close> of the \<open>try\<close> and the one of the
      \<open>catch\<close> both throw, and the handler ends without \<open>resolve\<close>\<close>
  "imageContextHandler r win env s e =
     (case snd e of
        OnLoad1 w h dok \<Rightarrow>
          if fst s then s
          else resolve (fst e) (imageContextCanvas (rounding env) r win (if dok then Rendered else Placeholder)) s
      | OnLoad2 w h dok \<Rightarrow>
          let tainted = (fst s \<or> (dok \<and> cross_origin env))
          in if tainted then (True, snd s)
             else resolve (fst e) (imageContextCanvas (rounding env) r win (if dok then Rendered else Placeholder)) s
      | OnError \<Rightarrow>
          if fst s then s else resolve (fst e) (imageContextCanvas (rounding env) r win Placeholder) s
      | Timeout \<Rightarrow>
          if fst s then s else resolve (fst e) (imageContextCanvas (rounding env) r win Placeholder) s)"

definition captureRegularImageWithContext ::
  "rect \<Rightarrow> viewport \<Rightarrow> media_env \<Rightarrow> (nat \<times> capture) option" where
  "captureRegularImageWithContext r win env =
     (if \<not> setup_ok env then Some (0, canvas 400 300 context_quality Placeholder)
      else snd (foldl (imageContextHandler r win env) (False, None) (image_events env)))"

text \<open>
  Vector graphics. An external file is fetched and parsed first: the fetch fails
  after some time, or gives a text after some time, which holds a usable \<open>svg\<close>
  element or does not (no element, or the serialisation throws). The image made
  from the data URL then loads as above; its \<open>onload\<close> has no \<open>try\<close>, so a draw that
  throws ends the handler without \<open>resolve\<close>. Each call of \<open>resolve\<close> is listed with its
  time, and the promise takes the earliest.
\<close>

datatype fetched = FetchFails nat | FetchedText nat bool

record svg_env =
  svg_rounding :: "real \<Rightarrow> real"
  svg_setup_ok :: bool
  fetched :: fetched
  svg_load :: load

fun first_resolve :: "(nat \<times> capture) list \<Rightarrow> (nat \<times> capture) option" where
  "first_resolve [] = None"
| "first_resolve (x # xs) =
     (case first_resolve xs of
        None \<Rightarrow> Some x
      | Some y \<Rightarrow> if fst x \<le> fst y then Some x else Some y)"

fun svg_load_calls ::
  "nat \<Rightarrow> (nat \<Rightarrow> nat \<Rightarrow> capture) \<Rightarrow> capture \<Rightarrow> load \<Rightarrow> (nat \<times> capture) list" where
  "svg_load_calls start render fallback (Loads t w h dok) =
     (if dok then [(start + t, render w h)] else [])"
| "svg_load_calls start render fallback (Errors t) = [(start + t, fallback)]"
| "svg_load_calls start render fallback NeverSettles = []"

definition svg_fetch_calls ::
  "(nat \<Rightarrow> nat \<Rightarrow> capture) \<Rightarrow> capture \<Rightarrow> svg_env \<Rightarrow> (nat \<times> capture) list" where
  "svg_fetch_calls render fallback env =
     (case fetched env of
        FetchFails t \<Rightarrow> [(t, fallback)]
      | FetchedText t usable \<Rightarrow>
          if usable then svg_load_calls t render fallback (svg_load env) else [(t, fallback)])"

definition svgRendered :: "(real \<Rightarrow> real) \<Rightarrow> nat \<Rightarrow> nat \<Rightarrow> capture" where
  \<comment> \<open>\<open>let width = img.width || 200; let height = img.height || 200\<close>, then the
      scaling of the image capture\<close>
  "svgRendered fl w h = rendered fl (if w = 0 then 200 else w) (if h = 0 then 200 else h)"

definition svg_calls :: "string \<Rightarrow> string \<Rightarrow> svg_env \<Rightarrow> (nat \<times> capture) list" where
  \<comment> \<open>the calls of \<open>resolve\<close> in \<open>captureSVGAsBase64\<close>, the last by its timer\<close>
  "svg_calls src tag env =
     (if src \<noteq> [] \<and> \<not> startsWith src ''data:''
      then svg_fetch_calls (svgRendered (svg_rounding env)) imageFallback env
      else if src \<noteq> [] \<and> startsWith src ''data:image/svg''
      then svg_load_calls 0 (svgRendered (svg_rounding env)) imageFallback (svg_load env)
      else if tag = ''svg''
      then svg_load_calls 0 (svgRendered (svg_rounding env)) imageFallback (svg_load env)
      else [(0, imageFallback)]) @
     [(5000, imageFallback)]"

definition captureSVGAsBase64 :: "string \<Rightarrow> string \<Rightarrow> svg_env \<Rightarrow> (nat \<times> capture) option" where
  "captureSVGAsBase64 src tag env =
     (if \<not> svg_setup_ok env then Some (0, canvas 400 300 isolated_quality Placeholder)
      else first_resolve (svg_calls src tag env))"

definition svgContextCanvas ::
  "(real \<Rightarrow> real) \<Rightarrow> rect \<Rightarrow> viewport \<Rightarrow> drawn \<Rightarrow> capture" where
  "svgContextCanvas fl r win c =
     (let cw = min (fl (fl (innerWidth win - r_left r) + 100)) (fl (r_width r + 100 * 2));
          ch = min (fl (fl (innerHeight win - r_top r) + 100)) (fl (r_height r + 100 * 2))
      in canvas (min 800 cw) (min 600 ch) context_quality c)"

definition svg_context_calls ::
  "rect \<Rightarrow> viewport \<Rightarrow> string \<Rightarrow> svg_env \<Rightarrow> (nat \<times> capture) list" where
  \<comment> \<open>the calls of \<open>resolve\<close> in \<open>captureSVGContextAsBase64\<close>, the last by its timer\<close>
  "svg_context_calls r win src env =
     (if src \<noteq> [] \<and> \<not> startsWith src ''data:''
      then svg_fetch_calls (\<lambda>w h. svgContextCanvas (svg_rounding env) r win Rendered)
             (svgContextCanvas (svg_rounding env) r win Placeholder) env
      else if src \<noteq> [] \<and> startsWith src ''data:image/svg''
      then svg_load_calls 0 (\<lambda>w h. svgContextCanvas (svg_rounding env) r win Rendered)
             (svgContextCanvas (svg_rounding env) r win Placeholder) (svg_load env)
      else [(0, svgContextCanvas (svg_rounding env) r win Placeholder)]) @
     [(5000, svgContextCanvas (svg_rounding env) r win Placeholder)]"

definition captureSVGContextAsBase64 ::
  "rect \<Rightarrow> viewport \<Rightarrow> string \<Rightarrow> svg_env \<Rightarrow> (nat \<times> capture) option" where
  "captureSVGContextAsBase64 r win src env =
     (if \<not> svg_setup_ok env then Some (0, canvas 400 300 context_quality Placeholder)
      else first_resolve (svg_context_calls r win src env))"

definition isSVG :: "string \<Rightarrow> string \<Rightarrow> string \<Rightarrow> bool" where
  \<comment> \<open>of the image element: its \<open>src\<close>, \<open>tagName\<close> and \<open>type\<close>\<close>
  "isSVG src tag ty =
     (src \<noteq> [] \<and>
      (js_includes src ''.svg'' \<or> js_includes src ''data:image/svg'' \<or> tag = ''svg'' \<or>
       (ty \<noteq> [] \<and> js_includes ty ''svg'')))"

definition captureImageOnly ::
  "string \<Rightarrow> string \<Rightarrow> string \<Rightarrow> media_env \<Rightarrow> svg_env \<Rightarrow> (nat \<times> capture) option" where
  "captureImageOnly src tag ty env senv =
     (if isSVG src tag ty then captureSVGAsBase64 src tag senv else captureRegularImage env)"

definition captureImageWithContext ::
  "rect \<Rightarrow> viewport \<Rightarrow> string \<Rightarrow> string \<Rightarrow> string \<Rightarrow> media_env \<Rightarrow> svg_env \<Rightarrow>
     (nat \<times> capture) option" where
  "captureImageWithContext r win src tag ty env senv =
     (if isSVG src tag ty then captureSVGContextAsBase64 r win src senv
      else captureRegularImageWithContext r win env)"

text \<open>
  A page geometry the bounds are stated for: sizes are not negative and the element
  is less than \<open>2^31\<close> pixels from the origin of the viewport.
\<close>

definition plausible :: "rect \<Rightarrow> viewport \<Rightarrow> bool" where
  "plausible r win =
     (0 \<le> r_width r \<and> 0 \<le> r_height r \<and> 0 \<le> innerWidth win \<and> 0 \<le> innerHeight win \<and>
      r_left r < 2 ^ 31 \<and> r_top r < 2 ^ 31)"

text \<open>
  What a browser gives an image capture: its arithmetic is that of doubles, and the
  width and height of a loaded image are unsigned 32-bit integers.
\<close>

definition sizes_ok :: "load \<Rightarrow> bool" where
  "sizes_ok l = (case l of Loads t w h dok \<Rightarrow> w < 2 ^ 32 \<and> h < 2 ^ 32 | _ \<Rightarrow> True)"

definition sized_handler :: "handler \<Rightarrow> bool" where
  "sized_handler hnd =
     (case hnd of
        OnLoad1 w h dok \<Rightarrow> w < 2 ^ 32 \<and> h < 2 ^ 32
      | OnLoad2 w h dok \<Rightarrow> w < 2 ^ 32 \<and> h < 2 ^ 32
      | _ \<Rightarrow> True)"

definition browser_env :: "media_env \<Rightarrow> svg_env \<Rightarrow> bool" where
  "browser_env env senv =
     (double_rounding (rounding env) \<and> double_rounding (svg_rounding senv) \<and>
      sizes_ok (load1 env) \<and> sizes_ok (load2 env) \<and> sizes_ok (svg_load senv))"

text \<open>
  An image of another origin on a slow server: the first load, with CORS, is answered
  after 4000 ms without the CORS headers and fires \<open>onerror\<close>; the second load,
  started at 2000 ms without CORS, succeeds 100 ms later.
\<close>

definition slow_cross_origin :: media_env where
  "slow_cross_origin =
     \<lparr>rounding = (\<lambda>x. x), setup_ok = True, cross_origin = True, load1 = Errors 4000,
      load2 = Loads 100 640 480 True\<rparr>"

definition not_found :: media_env where
  \<comment> \<open>a source that answers 404: both loads would fire \<open>onerror\<close>\<close>
  "not_found =
     \<lparr>rounding = (\<lambda>x. x), setup_ok = True, cross_origin = False, load1 = Errors 80,
      load2 = Errors 80\<rparr>"

definition loads_at_once :: media_env where
  \<comment> \<open>an image of the page's own origin, 200 by 100, that loads in 50 ms\<close>
  "loads_at_once =
     \<lparr>rounding = (\<lambda>x. x), setup_ok = True, cross_origin = False,
      load1 = Loads 50 200 100 True, load2 = NeverSettles\<rparr>"

definition some_rect :: rect where
  "some_rect = \<lparr>r_left = 40, r_top = 120, r_width = 640, r_height = 480\<rparr>"

definition some_viewport :: viewport where
  "some_viewport = \<lparr>innerWidth = 1280, innerHeight = 720\<rparr>"

definition all_resolved :: "(capture \<Rightarrow> bool) \<Rightarrow> capture_state \<Rightarrow> bool" where
  \<comment> \<open>what the promise has resolved to, if it has, satisfies \<open>P\<close>\<close>
  "all_resolved P s = (case snd s of None \<Rightarrow> True | Some x \<Rightarrow> P (snd x))"

definition fits :: "int \<Rightarrow> int \<Rightarrow> real \<Rightarrow> capture \<Rightarrow> bool" where
  \<comment> \<open>at most that wide and that high, encoded at that quality\<close>
  "fits W H q c = (cwidth c \<le> W \<and> cheight c \<le> H \<and> quality c = q)"

definition no_svg :: svg_env where
  "no_svg =
     \<lparr>svg_rounding = (\<lambda>x. x), svg_setup_ok = True, fetched = FetchFails 0,
      svg_load = NeverSettles\<rparr>"

section \<open>Values of a parsed payload\<close>

text \<open>
  The value \<open>JSON.parse\<close> returns, and \<open>undefined\<close> for a property that is not
  there. Of a number the script only takes the truth value (in \<open>x || ''\<close> and in
  \<open>if (x)\<close>) and the string form (when a DOM setter receives it), so a number is
  kept as these two: whether it is neither 0 nor NaN, and what \<open>String\<close> makes of
  it (\<open>Num True ''7''\<close>, \<open>Num True ''0.5''\<close>, \<open>Num True ''1e+21''\<close>, \<open>Num False ''0''\<close>).
  An object is its list of properties.
\<close>

datatype jsval =
    Undefined
  | Null
  | Bool bool
  | Num bool string
  | Str string
  | Arr "jsval list"
  | Obj "(string \<times> jsval) list"

datatype js_error = NetworkError | HttpError nat | SyntaxError | TypeError | ReferenceError

fun truthy :: "jsval \<Rightarrow> bool" where
  "truthy Undefined = False"
| "truthy Null = False"
| "truthy (Bool b) = b"
| "truthy (Num nonzero shown) = nonzero"
| "truthy (Str s) = (s \<noteq> [])"
| "truthy (Arr xs) = True"
| "truthy (Obj kvs) = True"

fun join_comma :: "string list \<Rightarrow> string" where
  "join_comma [] = []"
| "join_comma [s] = s"
| "join_comma (s # t # ss) = s @ '','' @ join_comma (t # ss)"

fun to_string :: "jsval \<Rightarrow> string" where
  \<comment> \<open>the conversion a DOM setter applies to a value that is not a string\<close>
  "to_string Undefined = ''undefined''"
| "to_string Null = ''null''"
| "to_string (Bool b) = (if b then ''true'' else ''false'')"
| "to_string (Num nonzero shown) = shown"
| "to_string (Str s) = s"
| "to_string (Arr xs) =
     join_comma (map (\<lambda>x. if x = Undefined \<or> x = Null then [] else to_string x) xs)"
| "to_string (Obj kvs) = ''[object Object]''"

fun get_prop :: "jsval \<Rightarrow> string \<Rightarrow> js_error + jsval" where
  \<comment> \<open>\<open>v.k\<close> for the property names the script reads of a payload, none of which a
      string, number, boolean or array has\<close>
  "get_prop Undefined k = Inl TypeError"
| "get_prop Null k = Inl TypeError"
| "get_prop (Obj kvs) k = Inr (case map_of kvs k of None \<Rightarrow> Undefined | Some v \<Rightarrow> v)"
| "get_prop v k = Inr Undefined"

section \<open>Inference client\<close>

text \<open>
  What \<open>fetch\<close> gave. \<open>None\<close> is a rejected fetch (no transport). Of a response the
  client reads \<open>ok\<close>, \<open>status\<close> and the body: \<open>NotJson\<close> when \<open>response.json()\<close>
  rejects, \<open>NoMessage\<close> when \<open>result.choices[0].message\<close> cannot be read, and
  \<open>Content c\<close> when \<open>result.choices[0].message.content\<close> is read, \<open>c\<close> being what
  \<open>JSON.parse\<close> makes of it (\<open>None\<close> when it throws).
\<close>

datatype body = NotJson | NoMessage | Content "jsval option"

record response =
  ok :: bool
  status :: nat
  body :: body

definition chat_completion :: "response option \<Rightarrow> js_error + jsval" where
  \<comment> \<open>the lines every inference function ends with:
      \<open>if (!response.ok) throw ...; const result = await response.json();
      return JSON.parse(result.choices[0].message.content)\<close>\<close>
  "chat_completion reply =
     (case reply of
        None \<Rightarrow> Inl NetworkError
      | Some r \<Rightarrow>
          if \<not> ok r then Inl (HttpError (status r))
          else (case body r of
                  NotJson \<Rightarrow> Inl SyntaxError
                | NoMessage \<Rightarrow> Inl TypeError
                | Content None \<Rightarrow> Inl SyntaxError
                | Content (Some v) \<Rightarrow> Inr v))"

text \<open>
  What the five inference functions do in their \<open>try\<close> up to the parsed result.
  Each awaits the isolated capture, then the context capture, then builds the
  context text of the prompt from the document (\<open>getInputContext\<close>, \<open>getPageContext\<close>,
  \<open>getSurroundingText\<close>, \<open>getLinkContext\<close>, ...), then sends the request. A call is
  what the environment makes of these steps: what each capture resolves to and when
  (\<open>None\<close> when its promise never settles), the error the building of the context
  text throws if it throws, and what \<open>fetch\<close> gives. The captures of a form field
  or link are values of \<open>captureInputField\<close>, \<open>captureInputWithContext\<close>,
  \<open>captureLinkElement\<close> and \<open>captureLinkWithContext\<close>, which always resolve; those
  of an image are values of \<open>captureImageOnly\<close> and \<open>captureImageWithContext\<close>.
\<close>

datatype 'a settled = Returns 'a | Throws js_error | Hangs

record call =
  isolatedImage :: "(nat \<times> capture) option"
  contextImage :: "(nat \<times> capture) option"
  contextError :: "js_error option"
  answer :: "response option"

definition inference_call :: "call \<Rightarrow> jsval settled" where
  "inference_call c =
     (case isolatedImage c of
        None \<Rightarrow> Hangs
      | Some isolatedImageData \<Rightarrow>
          (case contextImage c of
             None \<Rightarrow> Hangs
           | Some contextImageData \<Rightarrow>
               (case contextError c of
                  Some e \<Rightarrow> Throws e
                | None \<Rightarrow>
                    (case chat_completion (answer c) of
                       Inl e \<Rightarrow> Throws e
                     | Inr v \<Rightarrow> Returns v))))"

text \<open>The \<open>catch\<close> of these four functions logs the error and throws it again.\<close>

definition generateFormFieldHelp :: "call \<Rightarrow> jsval settled" where
  "generateFormFieldHelp c = inference_call c"

definition analyzeFormFieldAccessibility :: "call \<Rightarrow> jsval settled" where
  "analyzeFormFieldAccessibility c = inference_call c"

definition analyzeExistingAltText :: "call \<Rightarrow> jsval settled" where
  "analyzeExistingAltText c = inference_call c"

definition generateLinkText :: "call \<Rightarrow> jsval settled" where
  "generateLinkText c = inference_call c"

definition unavailable :: string where
  "unavailable = ''AI-generated description unavailable''"

definition altTextOf :: "jsval \<Rightarrow> js_error + string" where
  \<comment> \<open>the \<open>try\<close> body of \<open>generateAltText\<close> from \<open>structuredResponse\<close> on\<close>
  "altTextOf structuredResponse =
     (case get_prop structuredResponse ''alt_text'' of
        Inl e \<Rightarrow> Inl e
      | Inr a \<Rightarrow>
          let altText = (if truthy a then a else Str [])
          in (case get_prop structuredResponse ''classification'' of
                Inl e \<Rightarrow> Inl e
              | Inr c \<Rightarrow>
                  if c = Str ''decorative'' \<or> altText = Str [] then Inr []
                  else (case altText of
                          Str s \<Rightarrow> Inr (trim s)
                        | _ \<Rightarrow> Inl TypeError)))"

text \<open>
  \<open>generateAltText\<close> returns before its \<open>try\<close> for a small image, and its \<open>catch\<close>
  returns a fixed text for whatever was thrown; a capture that never settles leaves
  it waiting.
\<close>

definition generateAltText :: "element \<Rightarrow> call \<Rightarrow> string settled" where
  "generateAltText imgElement c =
     (if naturalWidth imgElement < 50 \<or> naturalHeight imgElement < 50
      then Returns ''Decorative image''
      else (case inference_call c of
              Hangs \<Rightarrow> Hangs
            | Throws e \<Rightarrow> Returns unavailable
            | Returns structuredResponse \<Rightarrow>
                (case altTextOf structuredResponse of
                   Inl e \<Rightarrow> Returns unavailable
                 | Inr altText \<Rightarrow> Returns altText)))"

text \<open>A response with status 200 whose content parses to the given value.\<close>

definition ok_reply :: "jsval \<Rightarrow> response option" where
  "ok_reply v = Some \<lparr>ok = True, status = 200, body = Content (Some v)\<rparr>"

text \<open>
  A call whose two captures resolve at once with the fallback drawings and whose
  context text is built, with the given outcome of \<open>fetch\<close>.
\<close>

definition resolved_call :: "response option \<Rightarrow> call" where
  "resolved_call reply =
     \<lparr>isolatedImage = Some (0, imageFallback),
      contextImage = Some (0, canvas 400 300 context_quality Placeholder),
      contextError = None, answer = reply\<rparr>"

definition ok_call :: "jsval \<Rightarrow> call" where
  "ok_call v = resolved_call (ok_reply v)"

section \<open>Document queries\<close>

text \<open>
  The document is the list of its elements in document order; an element is known by
  its index, which never changes: a removed element stays in the list with
  \<open>attached\<close> false, and an inserted one is put at the end. (The one insertion of the
  script, a generated label, happens only when no label matches the query that
  looks for it, so where it stands among the others is not observed.)
\<close>

type_synonym document = "element list"

definition querySelectorAll :: "(element \<Rightarrow> bool) \<Rightarrow> document \<Rightarrow> nat list" where
  "querySelectorAll sel d = filter (\<lambda>i. attached (d ! i) \<and> sel (d ! i)) [0..<length d]"

definition querySelector :: "(element \<Rightarrow> bool) \<Rightarrow> document \<Rightarrow> nat option" where
  "querySelector sel d = (case querySelectorAll sel d of [] \<Rightarrow> None | i # _ \<Rightarrow> Some i)"

definition getElementById :: "document \<Rightarrow> string \<Rightarrow> nat option" where
  "getElementById d ident = querySelector (\<lambda>e. getAttribute e ''id'' = Some ident) d"

definition sel_img :: "element \<Rightarrow> bool" where
  "sel_img e = (tagName e = ''IMG'')"

definition sel_fields :: "element \<Rightarrow> bool" where
  \<comment> \<open>\<open>'input, textarea, select'\<close>\<close>
  "sel_fields e = (tagName e \<in> set [''INPUT'', ''TEXTAREA'', ''SELECT''])"

definition sel_links :: "element \<Rightarrow> bool" where
  \<comment> \<open>\<open>'a[href], button[onclick], button[data-href]'\<close>\<close>
  "sel_links e =
     ((tagName e = ''A'' \<and> getAttribute e ''href'' \<noteq> None) \<or>
      (tagName e = ''BUTTON'' \<and>
         (getAttribute e ''onclick'' \<noteq> None \<or> getAttribute e ''data-href'' \<noteq> None)))"

text \<open>
  The script builds the selector \<open>label[for="${input.id}"]\<close> by pasting the id of
  the field between the quotes. For an id without a double quote, a backslash or a
  line break the selector is the attribute selector with that value, which selects
  the labels whose \<open>for\<close> is the id: this is \<open>sel_label_for\<close>. The documents of this
  development are those whose fields have such ids; with another id the pasted text
  is a different selector or none (\<open>querySelector\<close> then throws a SyntaxError),
  which is not modelled.
\<close>

definition sel_label_for :: "string \<Rightarrow> element \<Rightarrow> bool" where
  \<comment> \<open>\<open>label[for="ident"]\<close>\<close>
  "sel_label_for ident e = (tagName e = ''LABEL'' \<and> getAttribute e ''for'' = Some ident)"

definition sel_ai_generated :: "element \<Rightarrow> bool" where
  \<comment> \<open>\<open>[data-ai-generated="true"]\<close>\<close>
  "sel_ai_generated e = (getAttribute e ''data-ai-generated'' = Some ''true'')"

definition sel_class :: "string list \<Rightarrow> element \<Rightarrow> bool" where
  "sel_class names e = list_ex (\<lambda>c. c \<in> set (classList e)) names"

definition classList_add :: "string \<Rightarrow> element \<Rightarrow> element" where
  "classList_add c e = (if c \<in> set (classList e) then e else e\<lparr>classList := classList e @ [c]\<rparr>)"

definition classList_remove :: "string list \<Rightarrow> element \<Rightarrow> element" where
  "classList_remove names e = e\<lparr>classList := filter (\<lambda>c. c \<notin> set names) (classList e)\<rparr>"

section \<open>Issue classifier: images and form fields\<close>

definition isGenericAltText :: "string \<Rightarrow> bool" where
  "isGenericAltText text =
     (trim (toLowerCase text) \<in>
        set [''image'', ''photo'', ''picture'', ''img'', ''graphic'', ''icon''])"

definition meaningful :: "string option \<Rightarrow> bool" where
  \<comment> \<open>\<open>alt && alt.trim() && !isGenericAltText(alt)\<close>\<close>
  "meaningful a =
     (case a of None \<Rightarrow> False | Some t \<Rightarrow> t \<noteq> [] \<and> trim t \<noteq> [] \<and> \<not> isGenericAltText t)"

definition hasExistingAltText :: "element \<Rightarrow> bool" where
  "hasExistingAltText img =
     (if meaningful (getAttribute img ''alt'') then True
      else if meaningful (getAttribute img ''aria-label'') then True
      else False)"

definition labelledByText :: "document \<Rightarrow> element \<Rightarrow> bool" where
  \<comment> \<open>\<open>aria-labelledby\<close> names an element with some text\<close>
  "labelledByText d e =
     (case getAttribute e ''aria-labelledby'' of
        None \<Rightarrow> False
      | Some ariaLabelledBy \<Rightarrow>
          ariaLabelledBy \<noteq> [] \<and>
          (case getElementById d ariaLabelledBy of
             None \<Rightarrow> False
           | Some j \<Rightarrow> trim (textContent (d ! j)) \<noteq> []))"

definition needsAltText :: "document \<Rightarrow> element \<Rightarrow> bool" where
  "needsAltText d img =
     (if meaningful (getAttribute img ''alt'') then False
      else if meaningful (getAttribute img ''aria-label'') then False
      else if labelledByText d img then False
      else if getAttribute img ''alt'' = Some [] \<or>
              getAttribute img ''role'' = Some ''presentation'' then False
      else True)"

definition notLabelable :: "element \<Rightarrow> bool" where
  "notLabelable input = (el_type input \<in> set [''hidden'', ''submit'', ''button'', ''reset''])"

fun replace_first :: "string \<Rightarrow> string \<Rightarrow> string" where
  \<comment> \<open>\<open>s.replace(p, '')\<close> for a string \<open>p\<close>: the first occurrence is taken out\<close>
  "replace_first [] p = []"
| "replace_first (c # cs) p =
     (if startsWith (c # cs) p then drop (length p) (c # cs) else c # replace_first cs p)"

definition hasVisibleLabel :: "document \<Rightarrow> element \<Rightarrow> bool" where
  "hasVisibleLabel d input =
     (if (case querySelector (sel_label_for (attr_or_empty input ''id'')) d of
            None \<Rightarrow> False
          | Some j \<Rightarrow> trim (textContent (d ! j)) \<noteq> [])
      then True
      else if (case closestLabel input of
                 None \<Rightarrow> False
               | Some j \<Rightarrow>
                   j < length d \<and>
                   trim (replace_first (textContent (d ! j)) (el_value input)) \<noteq> [])
      then True
      else False)"

definition needsLabel :: "document \<Rightarrow> element \<Rightarrow> bool" where
  "needsLabel d input =
     (if notLabelable input then False
      else if hasVisibleLabel d input then False
      else if (case getAttribute input ''aria-label'' of
                 None \<Rightarrow> False | Some a \<Rightarrow> a \<noteq> [] \<and> trim a \<noteq> []) then False
      else if labelledByText d input then False
      else True)"

section \<open>Remediation applier\<close>

definition blank_element :: element where
  "blank_element =
     \<lparr>tagName = [], attrs = [], textContent = [], innerText = [], el_type = [],
      el_value = [], naturalWidth = 0, naturalHeight = 0, closestLabel = None,
      outline = [], border = [], classList = [], attached = True\<rparr>"

definition addGeneratedLabel :: "document \<Rightarrow> nat \<Rightarrow> string \<Rightarrow> string \<Rightarrow> document" where
  \<comment> \<open>\<open>fresh\<close> stands for \<open>Date.now() + Math.random().toString(36).substr(2, 9)\<close>\<close>
  "addGeneratedLabel d i labelText fresh =
     (case querySelector (sel_label_for (attr_or_empty (d ! i) ''id'')) d of
        Some j \<Rightarrow>
          d[j := setAttribute ((d ! j)\<lparr>textContent := labelText\<rparr>) ''data-ai-generated'' ''true'']
      | None \<Rightarrow>
          let inputElement =
                (if attr_or_empty (d ! i) ''id'' = []
                 then setAttribute (d ! i) ''id'' (''ai-generated-'' @ fresh) else d ! i);
              label = setAttribute (blank_element\<lparr>tagName := ''LABEL''\<rparr>) ''for''
                        (attr_or_empty inputElement ''id'');
              label = setAttribute (label\<lparr>textContent := labelText\<rparr>) ''data-ai-generated'' ''true''
          in d[i := inputElement] @ [label])"

definition addGeneratedLinkText :: "element \<Rightarrow> string \<Rightarrow> element" where
  "addGeneratedLinkText linkElement newText =
     (let originalText = getLinkText linkElement;
          e = setAttribute linkElement ''data-original-text'' originalText;
          e = e\<lparr>textContent := newText\<rparr>;
          e = setAttribute e ''data-ai-generated'' ''true''
      in setAttribute e ''title'' (''AI-improved from: \"'' @ originalText @ ''\"''))"

section \<open>Teardown\<close>

definition removeHighlights :: "document \<Rightarrow> document" where
  "removeHighlights d =
     map (\<lambda>img. if attached img \<and> sel_class [''ai-alt-highlight'', ''ai-alt-analysis''] img
                 then classList_remove [''ai-alt-highlight'', ''ai-alt-analysis'']
                        (img\<lparr>border := []\<rparr>)
                 else img) d"

definition removeFormHighlights :: "document \<Rightarrow> document" where
  "removeFormHighlights d =
     (let d1 = map (\<lambda>input.
                 if attached input \<and> sel_class [''ai-form-highlight'', ''ai-form-analysis''] input
                 then classList_remove [''ai-form-highlight'', ''ai-form-analysis'']
                        (input\<lparr>outline := []\<rparr>)
                 else input) d
      in map (\<lambda>el. if attached el \<and> sel_ai_generated el then el\<lparr>attached := False\<rparr> else el) d1)"

definition restoreLink :: "element \<Rightarrow> element" where
  \<comment> \<open>the body of the second loop of \<open>removeLinkHighlights\<close>\<close>
  "restoreLink link =
     (let originalText = attr_or_empty link ''data-original-text'';
          link = (if originalText \<noteq> [] then link\<lparr>textContent := originalText\<rparr> else link);
          link = removeAttribute link ''data-ai-generated'';
          link = removeAttribute link ''data-original-text''
      in removeAttribute link ''title'')"

definition removeLinkHighlights :: "document \<Rightarrow> document" where
  "removeLinkHighlights d =
     (let d1 = map (\<lambda>link.
                 if attached link \<and> sel_class [''ai-link-highlight'', ''ai-link-analysis''] link
                 then classList_remove [''ai-link-highlight'', ''ai-link-analysis'']
                        (link\<lparr>outline := []\<rparr>)
                 else link) d
      in map (\<lambda>link. if attached link \<and> sel_ai_generated link then restoreLink link else link) d1)"

section \<open>Pipeline orchestrator\<close>

datatype category = Image | FormField | Link

datatype 'a promise = Pending | Fulfilled 'a | Rejected js_error

fun promise_all :: "'a promise list \<Rightarrow> 'a list promise" where
  \<comment> \<open>\<open>Promise.all\<close>: fulfilled once every promise is, rejected once one is\<close>
  "promise_all [] = Fulfilled []"
| "promise_all (p # ps) =
     (case p of
        Rejected e \<Rightarrow> Rejected e
      | Pending \<Rightarrow> (case promise_all ps of Rejected e \<Rightarrow> Rejected e | _ \<Rightarrow> Pending)
      | Fulfilled v \<Rightarrow>
          (case promise_all ps of
             Rejected e \<Rightarrow> Rejected e
           | Pending \<Rightarrow> Pending
           | Fulfilled vs \<Rightarrow> Fulfilled (v # vs)))"

text \<open>
  A generation task from \<open>await generate...(node)\<close> on. The \<open>try\<close> body after the
  await is a function of what the inference function returned; it gives the changed
  document or the error thrown. The task puts the \<open>catch\<close> around both. The first
  component of a task's result is the document, the second is what the task's promise
  settles to (\<open>{node, success}\<close>); while the inference function waits for a capture
  that never settles, the task has changed nothing and its promise is pending.
\<close>

definition imageApply :: "document \<Rightarrow> nat \<Rightarrow> string \<Rightarrow> document" where
  \<comment> \<open>\<open>img.setAttribute('alt', altText)\<close>\<close>
  "imageApply d i altText = d[i := setAttribute (d ! i) ''alt'' altText]"

definition imageTask :: "document \<Rightarrow> nat \<Rightarrow> call \<Rightarrow> document \<times> bool promise" where
  "imageTask d i c =
     (case generateAltText (d ! i) c of
        Hangs \<Rightarrow> (d, Pending)
      | Throws e \<Rightarrow> (d[i := (d ! i)\<lparr>border := ''3px solid red''\<rparr>], Fulfilled False)
      | Returns altText \<Rightarrow>
          (let d' = imageApply d i altText
           in (d'[i := (d' ! i)\<lparr>border := ''3px solid green''\<rparr>], Fulfilled True)))"

definition formFieldApply :: "document \<Rightarrow> nat \<Rightarrow> jsval \<Rightarrow> string \<Rightarrow> js_error + document" where
  "formFieldApply d i result fresh =
     (case get_prop result ''label'' of
        Inl e \<Rightarrow> Inl e
      | Inr lab \<Rightarrow>
          let d1 = (if truthy lab \<and> \<not> hasVisibleLabel d (d ! i)
                    then addGeneratedLabel d i (to_string lab) fresh else d)
          in (case get_prop result ''aria_label'' of
                Inl e \<Rightarrow> Inl e
              | Inr aria \<Rightarrow>
                  Inr (if truthy aria \<and> attr_or_empty (d1 ! i) ''aria-label'' = []
                       then d1[i := setAttribute (d1 ! i) ''aria-label'' (to_string aria)]
                       else d1)))"

definition formFieldTask :: "document \<Rightarrow> nat \<Rightarrow> call \<Rightarrow> string \<Rightarrow> document \<times> bool promise" where
  "formFieldTask d i c fresh =
     (case generateFormFieldHelp c of
        Hangs \<Rightarrow> (d, Pending)
      | Throws e \<Rightarrow> (d[i := (d ! i)\<lparr>outline := ''3px solid red''\<rparr>], Fulfilled False)
      | Returns result \<Rightarrow>
          (case formFieldApply d i result fresh of
             Inr d' \<Rightarrow> (d'[i := (d' ! i)\<lparr>outline := ''3px solid green''\<rparr>], Fulfilled True)
           | Inl e \<Rightarrow> (d[i := (d ! i)\<lparr>outline := ''3px solid red''\<rparr>], Fulfilled False)))"

definition linkApply :: "document \<Rightarrow> nat \<Rightarrow> jsval \<Rightarrow> js_error + document" where
  "linkApply d i result =
     (case get_prop result ''suggested_text'' of
        Inl e \<Rightarrow> Inl e
      | Inr suggested \<Rightarrow>
          let d1 = (if truthy suggested
                    then d[i := addGeneratedLinkText (d ! i) (to_string suggested)] else d)
          in (case get_prop result ''aria_label'' of
                Inl e \<Rightarrow> Inl e
              | Inr aria \<Rightarrow>
                  Inr (if truthy aria \<and> attr_or_empty (d1 ! i) ''aria-label'' = []
                       then d1[i := setAttribute (d1 ! i) ''aria-label'' (to_string aria)]
                       else d1)))"

definition linkTask :: "document \<Rightarrow> nat \<Rightarrow> call \<Rightarrow> document \<times> bool promise" where
  "linkTask d i c =
     (case generateLinkText c of
        Hangs \<Rightarrow> (d, Pending)
      | Throws e \<Rightarrow> (d[i := (d ! i)\<lparr>outline := ''3px solid red''\<rparr>], Fulfilled False)
      | Returns result \<Rightarrow>
          (case linkApply d i result of
             Inr d' \<Rightarrow> (d'[i := (d' ! i)\<lparr>outline := ''3px solid green''\<rparr>], Fulfilled True)
           | Inl e \<Rightarrow> (d[i := (d ! i)\<lparr>outline := ''3px solid red''\<rparr>], Fulfilled False)))"

definition generationTask ::
  "category \<Rightarrow> document \<Rightarrow> nat \<Rightarrow> call \<Rightarrow> string \<Rightarrow> document \<times> bool promise" where
  "generationTask cat d i c fresh =
     (case cat of
        Image \<Rightarrow> imageTask d i c
      | FormField \<Rightarrow> formFieldTask d i c fresh
      | Link \<Rightarrow> linkTask d i c)"

text \<open>
  An analysis task. What the tooltip code and the score test do with the analysis is
  presentation: the model takes from the environment whether that part threw or,
  if not, the outline it chose. The mark is \<open>None\<close> while the inference function
  waits for a capture that never settles.
\<close>

datatype analysis_view = ViewThrows | ViewOutline string

definition analysisMark :: "jsval settled \<Rightarrow> analysis_view \<Rightarrow> string option" where
  "analysisMark analysis view =
     (case analysis of
        Hangs \<Rightarrow> None
      | Throws e \<Rightarrow> Some ''3px solid red''
      | Returns a \<Rightarrow>
          Some (case view of ViewThrows \<Rightarrow> ''3px solid red'' | ViewOutline outl \<Rightarrow> outl))"

definition imageAnalysisTask ::
  "document \<Rightarrow> nat \<Rightarrow> call \<Rightarrow> analysis_view \<Rightarrow> document \<times> unit promise" where
  "imageAnalysisTask d i c view =
     (case analysisMark (analyzeExistingAltText c) view of
        None \<Rightarrow> (d, Pending)
      | Some mark \<Rightarrow> (d[i := (d ! i)\<lparr>border := mark\<rparr>], Fulfilled ()))"

definition formAnalysisTask ::
  "document \<Rightarrow> nat \<Rightarrow> call \<Rightarrow> analysis_view \<Rightarrow> document \<times> unit promise" where
  "formAnalysisTask d i c view =
     (case analysisMark (analyzeFormFieldAccessibility c) view of
        None \<Rightarrow> (d, Pending)
      | Some mark \<Rightarrow> (d[i := (d ! i)\<lparr>outline := mark\<rparr>], Fulfilled ()))"

text \<open>
  One run of \<open>highlightImages\<close>, \<open>highlightFormFields\<close> or \<open>highlightLinks\<close>, together
  with the global flag \<open>isEnabled\<close> and the document.
\<close>

datatype stage = GenerationFanOut | Settling | AnalysisFanOut | Idle | Crashed js_error

record run =
  category :: category
  isEnabled :: bool
  doc :: document
  generationPromises :: "(nat \<times> bool promise) list"
  stage :: stage
  analysisPromises :: "(nat \<times> unit promise) list"

definition awaitGeneration :: "run \<Rightarrow> run" where
  \<comment> \<open>\<open>await Promise.all(generationPromises)\<close>, then \<open>setTimeout(..., 1000)\<close>\<close>
  "awaitGeneration r =
     (if stage r = GenerationFanOut
      then (case promise_all (map snd (generationPromises r)) of
              Fulfilled generationResults \<Rightarrow> r\<lparr>stage := Settling\<rparr>
            | Rejected e \<Rightarrow> r\<lparr>stage := Crashed e\<rparr>
            | Pending \<Rightarrow> r)
      else r)"

definition awaitAnalysis :: "run \<Rightarrow> run" where
  \<comment> \<open>\<open>await Promise.all(analysisPromises)\<close>\<close>
  "awaitAnalysis r =
     (if stage r = AnalysisFanOut
      then (case promise_all (map snd (analysisPromises r)) of
              Fulfilled u \<Rightarrow> r\<lparr>stage := Idle\<rparr>
            | Rejected e \<Rightarrow> r\<lparr>stage := Crashed e\<rparr>
            | Pending \<Rightarrow> r)
      else r)"

definition needsGeneration :: "category \<Rightarrow> document \<Rightarrow> nat list" where
  "needsGeneration c d =
     (case c of
        Image \<Rightarrow> filter (\<lambda>i. needsAltText d (d ! i)) (querySelectorAll sel_img d)
      | FormField \<Rightarrow> filter (\<lambda>i. needsLabel d (d ! i)) (querySelectorAll sel_fields d)
      | Link \<Rightarrow> filter (\<lambda>i. needsBetterLinkText (d ! i)) (querySelectorAll sel_links d))"

definition markGenerating :: "category \<Rightarrow> element \<Rightarrow> element" where
  "markGenerating c e =
     (case c of
        Image \<Rightarrow> classList_add ''ai-alt-highlight'' (e\<lparr>border := ''3px solid orange''\<rparr>)
      | FormField \<Rightarrow> classList_add ''ai-form-highlight'' (e\<lparr>outline := ''3px solid orange''\<rparr>)
      | Link \<Rightarrow> classList_add ''ai-link-highlight'' (e\<lparr>outline := ''3px solid orange''\<rparr>))"

definition markAll :: "(element \<Rightarrow> element) \<Rightarrow> nat list \<Rightarrow> document \<Rightarrow> document" where
  "markAll f nodes d = fold (\<lambda>i d'. d'[i := f (d' ! i)]) nodes d"

definition highlight :: "category \<Rightarrow> bool \<Rightarrow> document \<Rightarrow> run" where
  "highlight c enabled d =
     (let nodes = needsGeneration c d
      in awaitGeneration
           \<lparr>category = c, isEnabled = enabled, doc = markAll (markGenerating c) nodes d,
            generationPromises = map (\<lambda>i. (i, Pending)) nodes,
            stage = GenerationFanOut, analysisPromises = []\<rparr>)"

definition launchAnalysis :: "(element \<Rightarrow> element) \<Rightarrow> nat list \<Rightarrow> run \<Rightarrow> run" where
  "launchAnalysis mark nodes r =
     awaitAnalysis
       (r\<lparr>doc := markAll mark nodes (doc r),
          analysisPromises := map (\<lambda>i. (i, Pending)) nodes,
          stage := AnalysisFanOut\<rparr>)"

definition analyzeAllImages :: "run \<Rightarrow> run" where
  "analyzeAllImages r =
     launchAnalysis
       (\<lambda>img. classList_add ''ai-alt-analysis'' (img\<lparr>border := ''3px solid blue''\<rparr>))
       (filter (\<lambda>i. hasExistingAltText (doc r ! i)) (querySelectorAll sel_img (doc r))) r"

definition analyzeAllFormFields :: "run \<Rightarrow> run" where
  "analyzeAllFormFields r =
     launchAnalysis
       (\<lambda>input. classList_add ''ai-form-analysis'' (input\<lparr>outline := ''3px solid blue''\<rparr>))
       (filter (\<lambda>i. el_type (doc r ! i) = [] \<or> \<not> notLabelable (doc r ! i))
          (querySelectorAll sel_fields (doc r))) r"

definition settlingTimer :: "run \<Rightarrow> run" where
  \<comment> \<open>the callback of \<open>setTimeout(async () => { await analyzeAll...(); }, 1000)\<close>; the
      content script defines no function \<open>analyzeAllLinks\<close>, so the call in
      \<open>highlightLinks\<close> throws a ReferenceError\<close>
  "settlingTimer r =
     (case category r of
        Image \<Rightarrow> analyzeAllImages r
      | FormField \<Rightarrow> analyzeAllFormFields r
      | Link \<Rightarrow> r\<lparr>stage := Crashed ReferenceError\<rparr>)"

text \<open>
  What the environment does to a run: the call of the inference function in a
  generation task plays out (with the text that would be used for a generated id),
  the settling timer fires, the call in an analysis task plays out, or the popup
  sends \<open>{action: 'toggle', enabled: false}\<close>.
\<close>

datatype env_event =
    GenSettles nat call string
  | TimerFires
  | AnaSettles nat call analysis_view
  | ToggleOff

text \<open>
  An event for a task that is not pending changes nothing, and so does an event
  whose call waits for a capture that never settles: the task stays pending. A run
  of links never has an analysis task, so its branch of \<open>AnaSettles\<close> is never taken.
\<close>

definition step :: "run \<Rightarrow> env_event \<Rightarrow> run" where
  "step r ev =
     (case ev of
        GenSettles i c fresh \<Rightarrow>
          if map_of (generationPromises r) i = Some Pending
          then (let (d, p) = generationTask (category r) (doc r) i c fresh
                in awaitGeneration
                     (r\<lparr>doc := d,
                        generationPromises := AList.update i p (generationPromises r)\<rparr>))
          else r
      | TimerFires \<Rightarrow> if stage r = Settling then settlingTimer r else r
      | AnaSettles i c view \<Rightarrow>
          if map_of (analysisPromises r) i = Some Pending
          then (let (d, p) = (case category r of
                                Image \<Rightarrow> imageAnalysisTask (doc r) i c view
                              | FormField \<Rightarrow> formAnalysisTask (doc r) i c view
                              | Link \<Rightarrow> (doc r, Fulfilled ()))
                in awaitAnalysis
                     (r\<lparr>doc := d,
                        analysisPromises := AList.update i p (analysisPromises r)\<rparr>))
          else r
      | ToggleOff \<Rightarrow>
          r\<lparr>isEnabled := False,
            doc := removeLinkHighlights (removeFormHighlights (removeHighlights (doc r)))\<rparr>)"

definition run_events :: "run \<Rightarrow> env_event list \<Rightarrow> run" where
  "run_events r evs = foldl step r evs"

section \<open>What holds of every state of a run\<close>

definition fulfilled :: "'a promise \<Rightarrow> bool" where
  "fulfilled p = (case p of Fulfilled v \<Rightarrow> True | _ \<Rightarrow> False)"

definition rejected :: "'a promise \<Rightarrow> bool" where
  "rejected p = (case p of Rejected e \<Rightarrow> True | _ \<Rightarrow> False)"

definition run_inv :: "run \<Rightarrow> bool" where
  "run_inv r \<longleftrightarrow>
     distinct (map fst (generationPromises r)) \<and>
     distinct (map fst (analysisPromises r)) \<and>
     (\<forall>p \<in> snd ` set (generationPromises r). \<not> rejected p) \<and>
     (\<forall>p \<in> snd ` set (analysisPromises r). \<not> rejected p) \<and>
     (stage r = GenerationFanOut \<longrightarrow>
        analysisPromises r = [] \<and> Pending \<in> snd ` set (generationPromises r)) \<and>
     (stage r \<noteq> GenerationFanOut \<longrightarrow>
        (\<forall>p \<in> snd ` set (generationPromises r). fulfilled p)) \<and>
     (stage r = Settling \<longrightarrow> analysisPromises r = []) \<and>
     (stage r = AnalysisFanOut \<longrightarrow> Pending \<in> snd ` set (analysisPromises r)) \<and>
     (stage r = Idle \<longrightarrow> (\<forall>p \<in> snd ` set (analysisPromises r). fulfilled p)) \<and>
     (category r = Link \<longrightarrow>
        analysisPromises r = [] \<and> stage r \<noteq> AnalysisFanOut \<and> stage r \<noteq> Idle) \<and>
     (\<forall>e. stage r = Crashed e \<longrightarrow> e = ReferenceError \<and> category r = Link)"

section \<open>Elements and payloads for the examples\<close>

definition img_el :: "(string \<times> string) list \<Rightarrow> nat \<Rightarrow> nat \<Rightarrow> element" where
  "img_el as w h = blank_element\<lparr>tagName := ''IMG'', attrs := as, naturalWidth := w, naturalHeight := h\<rparr>"

definition input_el :: "string \<Rightarrow> (string \<times> string) list \<Rightarrow> element" where
  "input_el t as = blank_element\<lparr>tagName := ''INPUT'', attrs := as, el_type := t\<rparr>"

definition alt_payload :: "string \<Rightarrow> string \<Rightarrow> jsval" where
  "alt_payload c a =
     Obj [(''classification'', Str c), (''alt_text'', Str a), (''reasoning'', Str ''seen'')]"

definition field_payload :: "string \<Rightarrow> jsval" where
  "field_payload l =
     Obj [(''field_purpose'', Str ''contact''), (''input_type'', Str ''email''),
          (''label'', Str l), (''aria_label'', Str l)]"

definition link_payload :: "string \<Rightarrow> jsval" where
  "link_payload t =
     Obj [(''current_text_analysis'', Str ''vague''), (''link_purpose'', Str ''pricing''),
          (''suggested_text'', Str t), (''aria_label'', Str t),
          (''improvement_reasoning'', Str ''names the destination'')]"

text \<open>
  The call of a generation task for an image of another origin on a slow server
  (\<open>slow_cross_origin\<close>): its captures are those of the capture renderer, and the
  request would be answered.
\<close>

definition slow_image_call :: call where
  "slow_image_call =
     \<lparr>isolatedImage =
        captureImageOnly ''https://cdn.example.org/photo.jpg'' ''IMG'' [] slow_cross_origin no_svg,
      contextImage =
        captureImageWithContext some_rect some_viewport ''https://cdn.example.org/photo.jpg''
          ''IMG'' [] slow_cross_origin no_svg,
      contextError = None,
      answer = ok_reply (alt_payload ''simple_informative'' ''A red bicycle'')\<rparr>"
section \<open>The link classifier and the vagueness heuristic\<close>

lemma startsWith_iff: "startsWith s p \<longleftrightarrow> (\<exists>b. s = p @ b)"
  by (induction s p rule: startsWith.induct) auto

lemma js_includes_iff: "js_includes s p \<longleftrightarrow> (\<exists>a b. s = a @ p @ b)"
proof (induction s)
  case Nil
  then show ?case by auto
next
  case (Cons c cs)
  show ?case
  proof
    assume "js_includes (c # cs) p"
    then consider "startsWith (c # cs) p" | "js_includes cs p" by auto
    then show "\<exists>a b. c # cs = a @ p @ b"
    proof cases
      case 1
      then obtain b where "c # cs = p @ b" using startsWith_iff by blast
      then have "c # cs = [] @ p @ b" by simp
      then show ?thesis by blast
    next
      case 2
      then obtain a b where "cs = a @ p @ b" using Cons.IH by blast
      then have "c # cs = (c # a) @ p @ b" by simp
      then show ?thesis by blast
    qed
  next
    assume "\<exists>a b. c # cs = a @ p @ b"
    then obtain a b where ab: "c # cs = a @ p @ b" by blast
    show "js_includes (c # cs) p"
    proof (cases a)
      case Nil
      with ab have "startsWith (c # cs) p" using startsWith_iff by auto
      then show ?thesis by simp
    next
      case (Cons x a')
      with ab have "cs = a' @ p @ b" by simp
      then have "js_includes cs p" using Cons.IH by blast
      then show ?thesis by simp
    qed
  qed
qed

lemma split_ws_from_infix:
  "w \<in> set (split_ws_from cur s) \<Longrightarrow> \<exists>a b. rev cur @ s = a @ w @ b"
proof (induction cur s rule: split_ws_from.induct)
  case (1 cur)
  then have "rev cur @ [] = [] @ w @ []" by simp
  then show ?case by blast
next
  case (2 cur c cs)
  show ?case
  proof (cases "is_space c")
    case True
    with 2(3) consider "w = rev cur" | "w \<in> set (split_ws_from [] (dropWhile is_space cs))"
      by auto
    then show ?thesis
    proof cases
      case 1
      then have "rev cur @ c # cs = [] @ w @ (c # cs)" by simp
      then show ?thesis by blast
    next
      case 2
      then obtain a b where "rev [] @ dropWhile is_space cs = a @ w @ b"
        using "2.IH"(1) True by blast
      then have "cs = takeWhile is_space cs @ a @ w @ b"
        by (metis append_Nil rev.simps(1) takeWhile_dropWhile_id)
      then have "rev cur @ c # cs = (rev cur @ c # takeWhile is_space cs @ a) @ w @ b"
        by simp
      then show ?thesis by blast
    qed
  next
    case False
    with 2(3) have "w \<in> set (split_ws_from (c # cur) cs)" by simp
    then obtain a b where "rev (c # cur) @ cs = a @ w @ b"
      using "2.IH"(2) False by blast
    then have "rev cur @ c # cs = a @ w @ b" by simp
    then show ?thesis by blast
  qed
qed

lemma split_ws_word_included: "w \<in> set (split_ws s) \<Longrightarrow> js_includes s w"
  using split_ws_from_infix [of w "[]" s] by (simp add: split_ws_def js_includes_iff)

lemma js_includes_self: "js_includes s s"
proof -
  have "s = [] @ s @ []" by simp
  then show ?thesis unfolding js_includes_iff by blast
qed

lemma vague_test_collapses:
  "list_ex (\<lambda>pattern. lowerText = pattern \<or> js_includes lowerText pattern \<or>
              list_ex (\<lambda>word. word = pattern) (split_ws lowerText)) ps
   = list_ex (\<lambda>p. js_includes lowerText p) ps"
proof -
  have "(lowerText = p \<or> js_includes lowerText p \<or>
          list_ex (\<lambda>word. word = p) (split_ws lowerText)) = js_includes lowerText p" for p
    using js_includes_self [of lowerText] split_ws_word_included [of p lowerText]
    by (auto simp: list_ex_iff)
  then show ?thesis by simp
qed

lemma needsBetterLinkText_of_iff:
  "needsBetterLinkText_of t \<longleftrightarrow> trim t \<noteq> [] \<and> vague_link_heuristic t"
proof -
  have e: "trim [] = []" by (simp add: trim_def)
  show ?thesis
    unfolding needsBetterLinkText_of_def vague_link_heuristic_def Let_def vague_test_collapses
    using e by auto
qed

text \<open>
  Claim C3, as the code has it. A link is marked for generation exactly when it has
  some text and that text meets the vagueness heuristic: at most three words and a
  lexicon phrase occurring in it as a substring, or at most eight characters and not
  descriptive. The texts "click here", "here" and "read more" are marked, and so is
  "Contact support team", which has three words and contains the lexicon word
  "contact"; "Shipping Address" is not marked.
\<close>

theorem link_classifier_vague_heuristic:
  "(needsBetterLinkText link \<longleftrightarrow>
      trim (getLinkText link) \<noteq> [] \<and> vague_link_heuristic (getLinkText link)) \<and>
   needsBetterLinkText (text_link ''click here'') \<and>
   needsBetterLinkText (text_link ''here'') \<and>
   needsBetterLinkText (text_link ''read more'') \<and>
   needsBetterLinkText (text_link ''Contact support team'') \<and>
   \<not> needsBetterLinkText (text_link ''Shipping Address'')"
proof -
  have 1: "needsBetterLinkText (text_link ''click here'')" by code_simp
  have 2: "needsBetterLinkText (text_link ''here'')" by code_simp
  have 3: "needsBetterLinkText (text_link ''read more'')" by code_simp
  have 4: "needsBetterLinkText (text_link ''Contact support team'')" by code_simp
  have 5: "\<not> needsBetterLinkText (text_link ''Shipping Address'')" by code_simp
  show ?thesis
    using 1 2 3 4 5 by (simp add: needsBetterLinkText_def needsBetterLinkText_of_iff)
qed

theorem link_classifier_witness:
  "needsBetterLinkText (text_link ''Learn More'') \<and>
   trim (getLinkText (text_link ''Learn More'')) \<noteq> [] \<and>
   vague_link_heuristic (getLinkText (text_link ''Learn More''))"
proof -
  have "needsBetterLinkText (text_link ''Learn More'')" by code_simp
  then show ?thesis
    using link_classifier_vague_heuristic [of "text_link ''Learn More''"] by blast
qed

text \<open>
  The claim as written says that "Contact support team" is not marked for generation.
\<close>

theorem contact_support_team_counterexample:
  "needsBetterLinkText (text_link ''Contact support team'')"
  by code_simp



section \<open>The inference client\<close>

















lemma getAttribute_setAttribute: "getAttribute (setAttribute e k v) k' = (if k' = k then Some v else getAttribute e k')"
  by (simp add: getAttribute_def setAttribute_def update_conv')

lemma getAttribute_style:
  "getAttribute (e\<lparr>border := b\<rparr>) k = getAttribute e k"
  "getAttribute (e\<lparr>outline := b\<rparr>) k = getAttribute e k"
  "getAttribute (e\<lparr>textContent := t\<rparr>) k = getAttribute e k"
  by (simp_all add: getAttribute_def)

lemma altTextOf_decorative:
  "get_prop sr ''classification'' = Inr (Str ''decorative'') \<Longrightarrow> altTextOf sr = Inr []"
  by (cases sr) (auto simp: altTextOf_def Let_def split: sum.splits)

text \<open>
  Claim C2, as the code has it. For an image the model is asked about (natural width
  and height at least 50) whose result carries the classification \<open>decorative\<close>, the
  generated description is empty whatever \<open>alt_text\<close> the payload holds, and the
  \<open>alt\<close> attribute set on the node is the empty string.
\<close>

theorem decorative_result_applies_empty_alt:
  assumes "i < length d"
    and "50 \<le> naturalWidth (d ! i)" and "50 \<le> naturalHeight (d ! i)"
    and "inference_call c = Returns sr"
    and "get_prop sr ''classification'' = Inr (Str ''decorative'')"
  shows "generateAltText (d ! i) c = Returns [] \<and>
         getAttribute (fst (imageTask d i c) ! i) ''alt'' = Some []"
proof -
  have g: "generateAltText (d ! i) c = Returns []"
    using assms(2-5) by (simp add: generateAltText_def altTextOf_decorative)
  then show ?thesis
    using assms(1)
    by (simp add: imageTask_def imageApply_def Let_def getAttribute_setAttribute getAttribute_style)
qed

theorem decorative_result_witness:
  "generateAltText ([img_el [] 200 100] ! 0) (ok_call (alt_payload ''decorative'' ''A thin grey line''))
     = Returns [] \<and>
   getAttribute (fst (imageTask [img_el [] 200 100] 0
       (ok_call (alt_payload ''decorative'' ''A thin grey line''))) ! 0) ''alt'' = Some []"
proof -
  have 1: "(0::nat) < length [img_el [] 200 100]" by simp
  have 2: "50 \<le> naturalWidth ([img_el [] 200 100] ! 0)" by (simp add: img_el_def)
  have 3: "50 \<le> naturalHeight ([img_el [] 200 100] ! 0)" by (simp add: img_el_def)
  have 4: "inference_call (ok_call (alt_payload ''decorative'' ''A thin grey line''))
             = Returns (alt_payload ''decorative'' ''A thin grey line'')"
    by (simp add: inference_call_def resolved_call_def ok_call_def chat_completion_def ok_reply_def)
  have 5: "get_prop (alt_payload ''decorative'' ''A thin grey line'') ''classification''
             = Inr (Str ''decorative'')"
    by (simp add: alt_payload_def)
  show ?thesis by (rule decorative_result_applies_empty_alt [OF 1 2 3 4 5])
qed

lemma small_image_description:
  assumes "i < length d" and "naturalWidth (d ! i) < 50 \<or> naturalHeight (d ! i) < 50"
  shows "generateAltText (d ! i) c = Returns ''Decorative image'' \<and>
         getAttribute (fst (imageTask d i c) ! i) ''alt'' = Some ''Decorative image''"
proof -
  have g: "generateAltText (d ! i) c = Returns ''Decorative image''"
    using assms(2) by (auto simp: generateAltText_def)
  then show ?thesis
    using assms(1)
    by (simp add: imageTask_def imageApply_def Let_def getAttribute_setAttribute getAttribute_style)
qed

text \<open>
  An image below 50 pixels, which the code skips as likely decorative, gets the
  description \<open>Decorative image\<close> (and so does every image with a side below 50
  pixels, by \<open>small_image_description\<close>).
\<close>

theorem small_image_counterexample:
  "getAttribute (fst (imageTask [img_el [] 40 40] 0 (resolved_call None)) ! 0) ''alt''
     = Some ''Decorative image''"
  by (simp add: imageTask_def imageApply_def generateAltText_def img_el_def blank_element_def
        getAttribute_setAttribute getAttribute_style)

section \<open>The orchestrator\<close>

lemma promise_all_Fulfilled: "promise_all ps = Fulfilled vs \<Longrightarrow> \<forall>p\<in>set ps. fulfilled p"
  by (induction ps arbitrary: vs) (auto simp: fulfilled_def split: promise.splits)

lemma promise_all_Rejected: "promise_all ps = Rejected e \<Longrightarrow> \<exists>p\<in>set ps. rejected p"
  by (induction ps) (auto simp: rejected_def split: promise.splits)

lemma promise_all_Pending: "promise_all ps = Pending \<Longrightarrow> Pending \<in> set ps"
  by (induction ps) (auto split: promise.splits)

lemma promise_all_cases:
  "(\<exists>vs. promise_all ps = Fulfilled vs \<and> (\<forall>p\<in>set ps. fulfilled p)) \<or>
   (\<exists>e. promise_all ps = Rejected e \<and> (\<exists>p\<in>set ps. rejected p)) \<or>
   (promise_all ps = Pending \<and> Pending \<in> set ps)"
  using promise_all_Fulfilled promise_all_Rejected promise_all_Pending
  by (cases "promise_all ps") blast+

lemma generationTask_settles:
  "snd (generationTask cat d i c fresh) = Fulfilled True \<or>
   snd (generationTask cat d i c fresh) = Fulfilled False \<or>
   (generationTask cat d i c fresh = (d, Pending) \<and>
    (case cat of Image \<Rightarrow> generateAltText (d ! i) c = Hangs | _ \<Rightarrow> inference_call c = Hangs))"
  by (auto simp: generationTask_def imageTask_def formFieldTask_def linkTask_def Let_def
        generateFormFieldHelp_def generateLinkText_def
      split: category.splits sum.splits settled.splits)

lemma generationTask_not_rejected: "\<not> rejected (snd (generationTask cat d i c fresh))"
  using generationTask_settles [of cat d i c fresh] by (auto simp: rejected_def)

lemma analysisTask_not_rejected:
  "\<not> rejected (snd (imageAnalysisTask d i c view))"
  "\<not> rejected (snd (formAnalysisTask d i c view))"
  by (simp_all add: imageAnalysisTask_def formAnalysisTask_def rejected_def split: option.splits)

lemma set_update_cases:
  "distinct (map fst al) \<Longrightarrow> (j, p) \<in> set (AList.update k v al) \<longleftrightarrow>
     (if j = k then p = v else (j, p) \<in> set al)"
proof -
  assume d: "distinct (map fst al)"
  then have d': "distinct (map fst (AList.update k v al))" by (rule distinct_update)
  have "(j, p) \<in> set (AList.update k v al) \<longleftrightarrow> map_of (AList.update k v al) j = Some p"
    using d' by simp
  also have "\<dots> \<longleftrightarrow> ((map_of al)(k \<mapsto> v)) j = Some p" by (simp add: update_conv')
  also have "\<dots> \<longleftrightarrow> (if j = k then p = v else (j, p) \<in> set al)" using d by auto
  finally show ?thesis .
qed

lemma snd_set_update:
  assumes "distinct (map fst al)" "map_of al k = Some old"
  shows "snd ` set (AList.update k v al) \<subseteq> insert v (snd ` set al)"
    and "v \<in> snd ` set (AList.update k v al)"
    and "q \<in> snd ` set al \<Longrightarrow> q \<noteq> old \<Longrightarrow> q \<in> snd ` set (AList.update k v al)"
proof -
  show "snd ` set (AList.update k v al) \<subseteq> insert v (snd ` set al)"
    using set_update_cases [OF assms(1)] by (fastforce split: if_splits)
  show "v \<in> snd ` set (AList.update k v al)"
    using set_update_cases [OF assms(1), of k v k v] by force
  show "q \<in> snd ` set al \<Longrightarrow> q \<noteq> old \<Longrightarrow> q \<in> snd ` set (AList.update k v al)"
  proof -
    assume "q \<in> snd ` set al" "q \<noteq> old"
    then obtain j where j: "(j, q) \<in> set al" by auto
    have "j \<noteq> k"
    proof
      assume "j = k"
      with j assms(1) have "map_of al k = Some q" by simp
      with assms(2) \<open>q \<noteq> old\<close> show False by simp
    qed
    with j have "(j, q) \<in> set (AList.update k v al)"
      using set_update_cases [OF assms(1), of j q k v] by simp
    then show ?thesis by force
  qed
qed

lemma distinct_querySelectorAll: "distinct (querySelectorAll sel d)"
  by (simp add: querySelectorAll_def)

lemma awaitGeneration_cases:
  assumes "stage r = GenerationFanOut"
    and "\<forall>p \<in> snd ` set (generationPromises r). \<not> rejected p"
  shows "(awaitGeneration r = r\<lparr>stage := Settling\<rparr> \<and>
            (\<forall>p \<in> snd ` set (generationPromises r). fulfilled p)) \<or>
         (awaitGeneration r = r \<and> Pending \<in> snd ` set (generationPromises r))"
proof -
  have s: "set (map snd (generationPromises r)) = snd ` set (generationPromises r)" by simp
  from promise_all_cases [of "map snd (generationPromises r)"] show ?thesis
    unfolding s using assms by (auto simp: awaitGeneration_def)
qed

lemma awaitAnalysis_cases:
  assumes "stage r = AnalysisFanOut"
    and "\<forall>p \<in> snd ` set (analysisPromises r). \<not> rejected p"
  shows "(awaitAnalysis r = r\<lparr>stage := Idle\<rparr> \<and>
            (\<forall>p \<in> snd ` set (analysisPromises r). fulfilled p)) \<or>
         (awaitAnalysis r = r \<and> Pending \<in> snd ` set (analysisPromises r))"
proof -
  have s: "set (map snd (analysisPromises r)) = snd ` set (analysisPromises r)" by simp
  from promise_all_cases [of "map snd (analysisPromises r)"] show ?thesis
    unfolding s using assms by (auto simp: awaitAnalysis_def)
qed

lemma run_inv_generation:
  assumes "distinct (map fst (generationPromises r))" "analysisPromises r = []"
    and "stage r = GenerationFanOut"
    and "\<forall>p \<in> snd ` set (generationPromises r). \<not> rejected p"
  shows "run_inv (awaitGeneration r)"
proof -
  from awaitGeneration_cases [OF assms(3,4)] show ?thesis
  proof
    assume a: "awaitGeneration r = r\<lparr>stage := Settling\<rparr> \<and>
            (\<forall>p \<in> snd ` set (generationPromises r). fulfilled p)"
    then have "run_inv (r\<lparr>stage := Settling\<rparr>)"
      using assms by (simp add: run_inv_def)
    with a show ?thesis by simp
  next
    assume a: "awaitGeneration r = r \<and> Pending \<in> snd ` set (generationPromises r)"
    then have "run_inv r" using assms by (simp add: run_inv_def)
    with a show ?thesis by simp
  qed
qed

lemma run_inv_analysis:
  assumes "distinct (map fst (generationPromises r))" "distinct (map fst (analysisPromises r))"
    and "stage r = AnalysisFanOut" "category r \<noteq> Link"
    and "\<forall>p \<in> snd ` set (generationPromises r). fulfilled p"
    and "\<forall>p \<in> snd ` set (generationPromises r). \<not> rejected p"
    and "\<forall>p \<in> snd ` set (analysisPromises r). \<not> rejected p"
  shows "run_inv (awaitAnalysis r)"
proof -
  from awaitAnalysis_cases [OF assms(3,7)] show ?thesis
  proof
    assume a: "awaitAnalysis r = r\<lparr>stage := Idle\<rparr> \<and>
            (\<forall>p \<in> snd ` set (analysisPromises r). fulfilled p)"
    then have "run_inv (r\<lparr>stage := Idle\<rparr>)"
      using assms by (simp add: run_inv_def)
    with a show ?thesis by simp
  next
    assume a: "awaitAnalysis r = r \<and> Pending \<in> snd ` set (analysisPromises r)"
    then have "run_inv r" using assms by (simp add: run_inv_def)
    with a show ?thesis by simp
  qed
qed

lemma launchAnalysis_preserves_inv:
  assumes "run_inv r" "stage r = Settling" "category r \<noteq> Link" "distinct nodes"
  shows "run_inv (launchAnalysis mark nodes r)"
proof -
  define r1 where "r1 = r\<lparr>doc := markAll mark nodes (doc r),
          analysisPromises := map (\<lambda>i. (i, Pending)) nodes, stage := AnalysisFanOut\<rparr>"
  have m: "map fst (map (\<lambda>i. (i, Pending :: unit promise)) nodes) = nodes"
    by (induction nodes) auto
  have s: "\<forall>p \<in> snd ` set (analysisPromises r1). \<not> rejected p"
    by (auto simp: r1_def rejected_def)
  have g: "\<forall>p \<in> snd ` set (generationPromises r1). fulfilled p"
    "\<forall>p \<in> snd ` set (generationPromises r1). \<not> rejected p"
    "distinct (map fst (generationPromises r1))"
    using assms(1,2) by (simp_all add: r1_def run_inv_def)
  have rest: "stage r1 = AnalysisFanOut" "category r1 \<noteq> Link"
      "distinct (map fst (analysisPromises r1))"
    using assms(3,4) m by (simp_all add: r1_def)
  have "run_inv (awaitAnalysis r1)"
    by (rule run_inv_analysis) (use s g rest in blast)+
  then show ?thesis by (simp add: launchAnalysis_def r1_def)
qed

lemma step_preserves_inv: "run_inv r \<Longrightarrow> run_inv (step r ev)"
proof (cases ev)
  case (GenSettles i c fresh)
  assume inv: "run_inv r"
  show ?thesis
  proof (cases "map_of (generationPromises r) i = Some Pending")
    case False
    with GenSettles inv show ?thesis by (simp add: step_def)
  next
    case True
    obtain d p where dp: "generationTask (category r) (doc r) i c fresh = (d, p)"
      by (cases "generationTask (category r) (doc r) i c fresh")
    then have p: "\<not> rejected p"
      using generationTask_not_rejected [of "category r" "doc r" i c fresh] by simp
    define r1 where "r1 = r\<lparr>doc := d, generationPromises := AList.update i p (generationPromises r)\<rparr>"
    have st: "step r ev = awaitGeneration r1"
      using GenSettles True dp by (simp add: step_def r1_def)
    have dist: "distinct (map fst (generationPromises r))" using inv by (simp add: run_inv_def)
    have pend: "Pending \<in> snd ` set (generationPromises r)"
      using map_of_SomeD [OF True] by force
    have g: "stage r = GenerationFanOut"
    proof (rule ccontr)
      assume "stage r \<noteq> GenerationFanOut"
      with inv have "\<forall>p \<in> snd ` set (generationPromises r). fulfilled p" by (simp add: run_inv_def)
      with pend show False by (auto simp: fulfilled_def)
    qed
    have sub: "snd ` set (generationPromises r1) \<subseteq> insert p (snd ` set (generationPromises r))"
      using snd_set_update(1) [OF dist True] by (simp add: r1_def)
    have old: "\<forall>q \<in> snd ` set (generationPromises r). \<not> rejected q"
      using inv by (simp add: run_inv_def)
    from p sub old have norej: "\<forall>q \<in> snd ` set (generationPromises r1). \<not> rejected q" by blast
    have rest: "stage r1 = GenerationFanOut" "analysisPromises r1 = []"
      "distinct (map fst (generationPromises r1))"
      using g inv dist by (simp_all add: r1_def run_inv_def distinct_update)
    show ?thesis unfolding st
      by (rule run_inv_generation) (use norej rest in blast)+
  qed
next
  case TimerFires
  assume inv: "run_inv r"
  show ?thesis
  proof (cases "stage r = Settling")
    case False
    with TimerFires inv show ?thesis by (simp add: step_def)
  next
    case True
    have st: "step r ev = settlingTimer r" using TimerFires True by (simp add: step_def)
    show ?thesis
    proof (cases "category r")
      case Image
      then have "category r \<noteq> Link" by simp
      from launchAnalysis_preserves_inv [OF inv True this] show ?thesis unfolding st using Image
        by (simp add: settlingTimer_def analyzeAllImages_def distinct_querySelectorAll)
    next
      case FormField
      then have "category r \<noteq> Link" by simp
      from launchAnalysis_preserves_inv [OF inv True this] show ?thesis unfolding st using FormField
        by (simp add: settlingTimer_def analyzeAllFormFields_def distinct_querySelectorAll)
    next
      case Link
      with inv True show ?thesis unfolding st
        by (simp add: settlingTimer_def run_inv_def)
    qed
  qed
next
  case (AnaSettles i c view)
  assume inv: "run_inv r"
  show ?thesis
  proof (cases "map_of (analysisPromises r) i = Some Pending")
    case False
    with AnaSettles inv show ?thesis by (simp add: step_def)
  next
    case True
    have pend: "Pending \<in> snd ` set (analysisPromises r)"
      using map_of_SomeD [OF True] by force
    then have ne: "analysisPromises r \<noteq> []" by auto
    have nl: "category r \<noteq> Link" using inv ne by (simp add: run_inv_def)
    obtain d p where dp:
      "(case category r of
          Image \<Rightarrow> imageAnalysisTask (doc r) i c view
        | FormField \<Rightarrow> formAnalysisTask (doc r) i c view
        | Link \<Rightarrow> (doc r, Fulfilled ())) = (d, p)"
      by (cases "(case category r of
          Image \<Rightarrow> imageAnalysisTask (doc r) i c view
        | FormField \<Rightarrow> formAnalysisTask (doc r) i c view
        | Link \<Rightarrow> (doc r, Fulfilled ()))")
    then have p: "\<not> rejected p"
      using analysisTask_not_rejected [of "doc r" i c view]
      by (auto simp: rejected_def split: category.splits)
    define r1 where "r1 = r\<lparr>doc := d, analysisPromises := AList.update i p (analysisPromises r)\<rparr>"
    have st: "step r ev = awaitAnalysis r1"
      using AnaSettles True dp by (simp add: step_def r1_def)
    have dist: "distinct (map fst (analysisPromises r))" using inv by (simp add: run_inv_def)
    have notidle: "stage r \<noteq> Idle"
    proof
      assume "stage r = Idle"
      with inv have "\<forall>p \<in> snd ` set (analysisPromises r). fulfilled p" by (simp add: run_inv_def)
      with pend show False by (auto simp: fulfilled_def)
    qed
    have g: "stage r = AnalysisFanOut"
    proof (cases "stage r")
      case GenerationFanOut
      with inv ne show ?thesis by (simp add: run_inv_def)
    next
      case Settling
      with inv ne show ?thesis by (simp add: run_inv_def)
    next
      case AnalysisFanOut
      then show ?thesis .
    next
      case Idle
      with notidle show ?thesis by simp
    next
      case (Crashed e)
      with inv nl show ?thesis by (simp add: run_inv_def)
    qed
    have sub: "snd ` set (analysisPromises r1) \<subseteq> insert p (snd ` set (analysisPromises r))"
      using snd_set_update(1) [OF dist True] by (simp add: r1_def)
    have old: "\<forall>q \<in> snd ` set (analysisPromises r). \<not> rejected q"
      using inv by (simp add: run_inv_def)
    from p sub old have norej: "\<forall>q \<in> snd ` set (analysisPromises r1). \<not> rejected q" by blast
    have gens: "\<forall>p \<in> snd ` set (generationPromises r1). fulfilled p"
      "\<forall>p \<in> snd ` set (generationPromises r1). \<not> rejected p"
      "distinct (map fst (generationPromises r1))"
      using inv g by (simp_all add: r1_def run_inv_def)
    have rest: "stage r1 = AnalysisFanOut" "category r1 \<noteq> Link"
      "distinct (map fst (analysisPromises r1))"
      using g dist nl by (simp_all add: r1_def distinct_update)
    show ?thesis unfolding st
      by (rule run_inv_analysis) (use norej gens rest in blast)+
  qed
next
  case ToggleOff
  assume "run_inv r"
  with ToggleOff show ?thesis by (simp add: step_def run_inv_def)
qed

lemma highlight_inv: "run_inv (highlight c en d)"
proof -
  define nodes where "nodes = needsGeneration c d"
  define r0 where "r0 = \<lparr>category = c, isEnabled = en, doc = markAll (markGenerating c) nodes d,
            generationPromises = map (\<lambda>i. (i, Pending)) nodes,
            stage = GenerationFanOut, analysisPromises = []\<rparr>"
  have dn: "distinct nodes"
    by (cases c) (simp_all add: nodes_def needsGeneration_def distinct_querySelectorAll)
  have m: "map fst (map (\<lambda>i. (i, Pending :: bool promise)) nodes) = nodes"
    by (induction nodes) auto
  have s: "\<forall>p \<in> snd ` set (generationPromises r0). \<not> rejected p"
    by (auto simp: r0_def rejected_def)
  have rest: "stage r0 = GenerationFanOut" "analysisPromises r0 = []"
      "distinct (map fst (generationPromises r0))"
    using dn m by (simp_all add: r0_def)
  have "run_inv (awaitGeneration r0)"
    by (rule run_inv_generation) (use s rest in blast)+
  then show ?thesis by (simp add: highlight_def r0_def nodes_def Let_def)
qed

lemma run_events_inv: "run_inv r \<Longrightarrow> run_inv (run_events r evs)"
  unfolding run_events_def
  by (induction evs arbitrary: r) (simp_all add: step_preserves_inv)

lemma generationPromises_awaitGeneration [simp]:
  "generationPromises (awaitGeneration r) = generationPromises r"
  by (simp add: awaitGeneration_def split: promise.splits)

lemma generationPromises_awaitAnalysis [simp]:
  "generationPromises (awaitAnalysis r) = generationPromises r"
  by (simp add: awaitAnalysis_def split: promise.splits)

lemma generationPromises_settlingTimer [simp]:
  "generationPromises (settlingTimer r) = generationPromises r"
  by (simp add: settlingTimer_def analyzeAllImages_def analyzeAllFormFields_def
        launchAnalysis_def split: category.splits)

lemma step_keys:
  "map fst (generationPromises (step r ev)) = map fst (generationPromises r)"
proof (cases ev)
  case (GenSettles i c fresh)
  show ?thesis
  proof (cases "map_of (generationPromises r) i = Some Pending")
    case True
    then have "i \<in> fst ` set (generationPromises r)"
      by (metis domI dom_map_of_conv_image_fst)
    then have "i \<in> set (map fst (generationPromises r))" by simp
    then show ?thesis using GenSettles True
      by (simp add: step_def update_keys split: prod.splits)
  next
    case False
    with GenSettles show ?thesis by (simp add: step_def)
  qed
next
  case TimerFires
  then show ?thesis by (simp add: step_def)
next
  case (AnaSettles i c view)
  then show ?thesis by (simp add: step_def split: prod.splits)
next
  case ToggleOff
  then show ?thesis by (simp add: step_def)
qed

lemma run_events_keys:
  "map fst (generationPromises (run_events r evs)) = map fst (generationPromises r)"
  unfolding run_events_def
  by (induction evs arbitrary: r) (simp_all add: step_keys)

lemma highlight_initial:
  "analysisPromises (highlight c en d) = [] \<and>
   map fst (generationPromises (highlight c en d)) = needsGeneration c d"
proof -
  have m: "map (fst \<circ> (\<lambda>i. (i, Pending :: bool promise))) nodes = nodes" for nodes :: "nat list"
    by (induction nodes) auto
  show ?thesis
    by (simp add: highlight_def Let_def awaitGeneration_def m split: promise.splits)
qed

lemma list_all_fulfilled: "list_all fulfilled (map snd al) \<longleftrightarrow> (\<forall>p \<in> snd ` set al. fulfilled p)"
  by (auto simp: list_all_iff)

text \<open>
  Claim C5. In a run of any category, all generation tasks are launched by
  \<open>highlight\<close> itself, when no analysis task exists, and no generation task is added
  later; in every state the run reaches, whatever the environment does, the analysis
  fan-out has started or an analysis task exists only if every generation promise is
  fulfilled (with success or with failure).
\<close>

theorem analysis_only_after_generation_settled:
  "analysisPromises (highlight c en d) = [] \<and>
   map fst (generationPromises (highlight c en d)) = needsGeneration c d \<and>
   map fst (generationPromises (run_events (highlight c en d) evs)) = needsGeneration c d \<and>
   (stage (run_events (highlight c en d) evs) = AnalysisFanOut \<or>
    analysisPromises (run_events (highlight c en d) evs) \<noteq> [] \<longrightarrow>
      list_all fulfilled (map snd (generationPromises (run_events (highlight c en d) evs))))"
proof -
  define r where "r = run_events (highlight c en d) evs"
  have inv: "run_inv r" unfolding r_def by (rule run_events_inv [OF highlight_inv])
  have k: "map fst (generationPromises r) = needsGeneration c d"
    unfolding r_def using run_events_keys [of "highlight c en d" evs] highlight_initial [of c en d]
    by simp
  have a: "stage r = AnalysisFanOut \<or> analysisPromises r \<noteq> [] \<longrightarrow>
      list_all fulfilled (map snd (generationPromises r))"
  proof
    assume h: "stage r = AnalysisFanOut \<or> analysisPromises r \<noteq> []"
    have "stage r \<noteq> GenerationFanOut"
    proof
      assume "stage r = GenerationFanOut"
      with inv have "analysisPromises r = []" by (simp add: run_inv_def)
      with h \<open>stage r = GenerationFanOut\<close> show False by simp
    qed
    with inv have "\<forall>p \<in> snd ` set (generationPromises r). fulfilled p"
      by (simp add: run_inv_def)
    then show "list_all fulfilled (map snd (generationPromises r))"
      by (simp only: list_all_fulfilled)
  qed
  show ?thesis using highlight_initial [of c en d] k a unfolding r_def by blast
qed

theorem analysis_only_after_generation_settled_witness:
  "stage (run_events (highlight Image True [img_el [] 200 100])
       [GenSettles 0 (ok_call (alt_payload ''simple_informative'' ''A red bicycle'')) [],
        TimerFires]) = AnalysisFanOut \<and>
   list_all fulfilled (map snd (generationPromises
     (run_events (highlight Image True [img_el [] 200 100])
       [GenSettles 0 (ok_call (alt_payload ''simple_informative'' ''A red bicycle'')) [],
        TimerFires])))"
proof -
  have h: "stage (run_events (highlight Image True [img_el [] 200 100])
       [GenSettles 0 (ok_call (alt_payload ''simple_informative'' ''A red bicycle'')) [],
        TimerFires]) = AnalysisFanOut"
    by code_simp
  show ?thesis
    using h analysis_only_after_generation_settled
      [of Image True "[img_el [] 200 100]"
          "[GenSettles 0 (ok_call (alt_payload ''simple_informative'' ''A red bicycle'')) [],
            TimerFires]"]
    by blast
qed

lemma awaitGeneration_isEnabled:
  "awaitGeneration (r\<lparr>isEnabled := b\<rparr>) = (awaitGeneration r)\<lparr>isEnabled := b\<rparr>"
  by (simp add: awaitGeneration_def split: promise.splits)

text \<open>
  Claim C9, as the code has it. When the call of a generation task plays out,
  what the task does to the document, to its promise and to the stage is the same
  whatever \<open>isEnabled\<close> holds: the flag is not read. Toggling off sets the flag and
  leaves every generation promise and the stage as they were.
\<close>

theorem results_applied_whatever_the_flag:
  "step (r\<lparr>isEnabled := b\<rparr>) (GenSettles i c fresh)
     = (step r (GenSettles i c fresh))\<lparr>isEnabled := b\<rparr> \<and>
   isEnabled (step r ToggleOff) = False \<and>
   generationPromises (step r ToggleOff) = generationPromises r \<and>
   stage (step r ToggleOff) = stage r"
proof -
  have "step (r\<lparr>isEnabled := b\<rparr>) (GenSettles i c fresh)
     = (step r (GenSettles i c fresh))\<lparr>isEnabled := b\<rparr>"
  proof (cases "map_of (generationPromises r) i = Some Pending")
    case True
    obtain d p where dp: "generationTask (category r) (doc r) i c fresh = (d, p)"
      by (cases "generationTask (category r) (doc r) i c fresh")
    have e: "r\<lparr>isEnabled := b, doc := d, generationPromises := g\<rparr>
          = r\<lparr>doc := d, generationPromises := g, isEnabled := b\<rparr>" for g
      by simp
    show ?thesis using True dp
      by (simp add: step_def e awaitGeneration_isEnabled del: run.update_convs)
  next
    case False
    then show ?thesis by (simp add: step_def)
  qed
  then show ?thesis by (simp add: step_def)
qed

text \<open>
  A form field whose request comes back after the toggle-off still gets its
  \<open>aria-label\<close> and its generated label.
\<close>

theorem applied_after_toggle_off_counterexample:
  "isEnabled (run_events (highlight FormField True [input_el ''email'' []])
       [ToggleOff, GenSettles 0 (ok_call (field_payload ''Email address'')) ''17'']) = False \<and>
   getAttribute (doc (run_events (highlight FormField True [input_el ''email'' []])
       [ToggleOff, GenSettles 0 (ok_call (field_payload ''Email address'')) ''17'']) ! 0)
     ''aria-label'' = Some ''Email address'' \<and>
   textContent (doc (run_events (highlight FormField True [input_el ''email'' []])
       [ToggleOff, GenSettles 0 (ok_call (field_payload ''Email address'')) ''17'']) ! 1)
     = ''Email address''"
  by code_simp

text \<open>
  Claim C10 at a document with one vague link: once the generation of the link has
  settled and the settling timer fires, the run stops on the ReferenceError of the
  call to \<open>analyzeAllLinks\<close>, and no analysis task exists.
\<close>

theorem link_analysis_never_launched:
  "stage (run_events (highlight Link True [text_link ''click here''])
       [GenSettles 0 (ok_call (link_payload ''View pricing plans'')) [], TimerFires])
     = Crashed ReferenceError \<and>
   analysisPromises (run_events (highlight Link True [text_link ''click here''])
       [GenSettles 0 (ok_call (link_payload ''View pricing plans'')) [], TimerFires]) = []"
  by code_simp

lemma querySelector_Some:
  "querySelector sel d = Some j \<Longrightarrow> j < length d \<and> attached (d ! j) \<and> sel (d ! j)"
proof -
  assume "querySelector sel d = Some j"
  then have "j \<in> set (querySelectorAll sel d)"
    by (auto simp: querySelector_def split: list.splits)
  then show ?thesis by (simp add: querySelectorAll_def)
qed

lemma attr_or_empty_setAttribute:
  "attr_or_empty (setAttribute e k v) k' = (if k' = k then v else attr_or_empty e k')"
  by (simp add: attr_or_empty_def getAttribute_setAttribute)

lemma setAttribute_fields [simp]:
  "tagName (setAttribute e k v) = tagName e"
  "textContent (setAttribute e k v) = textContent e"
  by (simp_all add: setAttribute_def)

lemma addGeneratedLabel_frame:
  assumes "j \<noteq> i" "j < length d" "tagName (d ! j) \<noteq> ''LABEL''"
  shows "addGeneratedLabel d i t fresh ! j = d ! j"
proof (cases "querySelector (sel_label_for (attr_or_empty (d ! i) ''id'')) d")
  case None
  then show ?thesis using assms by (simp add: addGeneratedLabel_def Let_def nth_append)
next
  case (Some l)
  then have "tagName (d ! l) = ''LABEL''"
    using querySelector_Some [OF Some] by (simp add: sel_label_for_def)
  with assms have "l \<noteq> j" by auto
  then show ?thesis using Some by (simp add: addGeneratedLabel_def)
qed

lemma addGeneratedLabel_length: "length d \<le> length (addGeneratedLabel d i t fresh)"
  by (simp add: addGeneratedLabel_def Let_def split: option.splits)

lemma formFieldApply_frame:
  assumes "formFieldApply d i result fresh = Inr d'" "j \<noteq> i" "j < length d"
    "tagName (d ! j) \<noteq> ''LABEL''"
  shows "d' ! j = d ! j \<and> j < length d'"
proof -
  from assms(1) obtain lab aria where
    d': "d' = (let d1 = (if truthy lab \<and> \<not> hasVisibleLabel d (d ! i)
                         then addGeneratedLabel d i (to_string lab) fresh else d)
               in (if truthy aria \<and> attr_or_empty (d1 ! i) ''aria-label'' = []
                   then d1[i := setAttribute (d1 ! i) ''aria-label'' (to_string aria)]
                   else d1))"
    by (auto simp: formFieldApply_def Let_def split: sum.splits)
  define d1 where "d1 = (if truthy lab \<and> \<not> hasVisibleLabel d (d ! i)
                         then addGeneratedLabel d i (to_string lab) fresh else d)"
  have 1: "d1 ! j = d ! j" using assms(2-4) by (simp add: d1_def addGeneratedLabel_frame)
  have 2: "length d \<le> length d1"
    using addGeneratedLabel_length [of d i "to_string lab" fresh] by (simp add: d1_def)
  show ?thesis using 1 2 assms(2,3) unfolding d' d1_def [symmetric] by (simp add: Let_def)
qed

lemma linkApply_frame:
  assumes "linkApply d i result = Inr d'" "j \<noteq> i"
  shows "d' ! j = d ! j \<and> length d' = length d"
  using assms by (auto simp: linkApply_def Let_def split: sum.splits if_splits)

lemma generationTask_frame:
  assumes "j \<noteq> i" "j < length d" "tagName (d ! j) \<noteq> ''LABEL''"
  shows "fst (generationTask cat d i c fresh) ! j = d ! j"
proof (cases cat)
  case Image
  then show ?thesis using assms
    by (simp add: generationTask_def imageTask_def imageApply_def Let_def split: settled.splits)
next
  case FormField
  show ?thesis
  proof (cases "generateFormFieldHelp c")
    case (Returns result)
    show ?thesis
    proof (cases "formFieldApply d i result fresh")
      case (Inl e)
      then show ?thesis using FormField Returns assms
        by (simp add: generationTask_def formFieldTask_def)
    next
      case (Inr d')
      from formFieldApply_frame [OF Inr assms] show ?thesis
        using FormField Returns Inr assms(1) by (simp add: generationTask_def formFieldTask_def)
    qed
  next
    case (Throws e)
    then show ?thesis using FormField assms by (simp add: generationTask_def formFieldTask_def)
  next
    case Hangs
    then show ?thesis using FormField by (simp add: generationTask_def formFieldTask_def)
  qed
next
  case Link
  show ?thesis
  proof (cases "generateLinkText c")
    case (Returns result)
    show ?thesis
    proof (cases "linkApply d i result")
      case (Inl e)
      then show ?thesis using Link Returns assms by (simp add: generationTask_def linkTask_def)
    next
      case (Inr d')
      from linkApply_frame [OF Inr assms(1)] show ?thesis
        using Link Returns Inr assms(1) by (simp add: generationTask_def linkTask_def)
    qed
  next
    case (Throws e)
    then show ?thesis using Link assms by (simp add: generationTask_def linkTask_def)
  next
    case Hangs
    then show ?thesis using Link by (simp add: generationTask_def linkTask_def)
  qed
qed

lemma generationTask_failure_mark:
  assumes "cat \<noteq> Image" "inference_call c = Throws e"
  shows "generationTask cat d i c fresh
           = (d[i := (d ! i)\<lparr>outline := ''3px solid red''\<rparr>], Fulfilled False)"
  using assms
  by (cases cat)
     (simp_all add: generationTask_def formFieldTask_def generateFormFieldHelp_def linkTask_def
        generateLinkText_def)

lemma image_failure_absorbed:
  assumes "50 \<le> naturalWidth (d ! i)" "50 \<le> naturalHeight (d ! i)" "i < length d"
    "inference_call c = Throws e"
  shows "generationTask Image d i c fresh
           = (d[i := (setAttribute (d ! i) ''alt'' unavailable)\<lparr>border := ''3px solid green''\<rparr>],
              Fulfilled True)"
  using assms
  by (simp add: generationTask_def imageTask_def imageApply_def generateAltText_def)

lemma generationTask_waits:
  assumes "inference_call c = Hangs" "cat = Image \<longrightarrow> 50 \<le> naturalWidth (d ! i) \<and> 50 \<le> naturalHeight (d ! i)"
  shows "generationTask cat d i c fresh = (d, Pending)"
  using assms
  by (cases cat)
     (simp_all add: generationTask_def imageTask_def generateAltText_def formFieldTask_def
        generateFormFieldHelp_def linkTask_def generateLinkText_def)

lemma analysis_failure_mark:
  assumes "inference_call c = Throws e"
  shows "imageAnalysisTask d i c view
           = (d[i := (d ! i)\<lparr>border := ''3px solid red''\<rparr>], Fulfilled ())"
    and "formAnalysisTask d i c view
           = (d[i := (d ! i)\<lparr>outline := ''3px solid red''\<rparr>], Fulfilled ())"
  using assms
  by (simp_all add: imageAnalysisTask_def formAnalysisTask_def analysisMark_def
        analyzeExistingAltText_def analyzeFormFieldAccessibility_def)

lemma list_ex_rejected: "list_ex rejected (map snd al) \<longleftrightarrow> (\<exists>p \<in> snd ` set al. rejected p)"
  by (auto simp: list_ex_iff)

lemma run_batches_settle:
  assumes "run_inv r"
  shows "\<not> list_ex rejected (map snd (generationPromises r))"
    and "\<not> list_ex rejected (map snd (analysisPromises r))"
    and "stage r = GenerationFanOut \<longleftrightarrow> Pending \<in> set (map snd (generationPromises r))"
    and "stage r = AnalysisFanOut \<longleftrightarrow> Pending \<in> set (map snd (analysisPromises r))"
proof -
  show "\<not> list_ex rejected (map snd (generationPromises r))"
    using assms unfolding list_ex_rejected by (simp add: run_inv_def)
  show "\<not> list_ex rejected (map snd (analysisPromises r))"
    using assms unfolding list_ex_rejected by (simp add: run_inv_def)
  have np: "\<not> fulfilled (Pending :: 'a promise)" by (simp add: fulfilled_def)
  show "stage r = GenerationFanOut \<longleftrightarrow> Pending \<in> set (map snd (generationPromises r))"
  proof
    assume "stage r = GenerationFanOut"
    with assms show "Pending \<in> set (map snd (generationPromises r))" by (simp add: run_inv_def)
  next
    assume p: "Pending \<in> set (map snd (generationPromises r))"
    show "stage r = GenerationFanOut"
    proof (rule ccontr)
      assume "stage r \<noteq> GenerationFanOut"
      with assms have "\<forall>p \<in> snd ` set (generationPromises r). fulfilled p"
        by (simp add: run_inv_def)
      with p np show False by auto
    qed
  qed
  show "stage r = AnalysisFanOut \<longleftrightarrow> Pending \<in> set (map snd (analysisPromises r))"
  proof
    assume "stage r = AnalysisFanOut"
    with assms show "Pending \<in> set (map snd (analysisPromises r))" by (simp add: run_inv_def)
  next
    assume p: "Pending \<in> set (map snd (analysisPromises r))"
    then have ne: "analysisPromises r \<noteq> []" by auto
    show "stage r = AnalysisFanOut"
    proof (cases "stage r")
      case GenerationFanOut
      with assms ne show ?thesis by (simp add: run_inv_def)
    next
      case Settling
      with assms ne show ?thesis by (simp add: run_inv_def)
    next
      case AnalysisFanOut
      then show ?thesis .
    next
      case Idle
      with assms have "\<forall>p \<in> snd ` set (analysisPromises r). fulfilled p"
        by (simp add: run_inv_def)
      with p np show ?thesis by auto
    next
      case (Crashed e)
      with assms have "category r = Link" by (simp add: run_inv_def)
      with assms have "analysisPromises r = []" by (simp add: run_inv_def)
      with ne show ?thesis by simp
    qed
  qed
qed

lemma image_network_failure:
  "generationTask Image [img_el [] 200 100] 0 (resolved_call None) []
     = ([(setAttribute (img_el [] 200 100) ''alt'' ''AI-generated description unavailable'')
           \<lparr>border := ''3px solid green''\<rparr>], Fulfilled True)"
  by code_simp

lemma link_network_failure:
  "generationTask Link [text_link ''click here''] 0 (resolved_call None) []
     = ([(text_link ''click here'')\<lparr>outline := ''3px solid red''\<rparr>], Fulfilled False)"
  by code_simp

lemma slow_image_call_hangs: "inference_call slow_image_call = Hangs"
  by code_simp

lemma blocked_run_promises:
  "generationPromises
     (run_events (highlight Image True [img_el [] 200 100, img_el [] 300 200])
        [GenSettles 0 slow_image_call [],
         GenSettles 1 (ok_call (alt_payload ''simple_informative'' ''A red bicycle'')) [],
         TimerFires])
     = [(0, Pending), (1, Fulfilled True)]"
  by code_simp

lemma blocked_run_stage:
  "stage
     (run_events (highlight Image True [img_el [] 200 100, img_el [] 300 200])
        [GenSettles 0 slow_image_call [],
         GenSettles 1 (ok_call (alt_payload ''simple_informative'' ''A red bicycle'')) [],
         TimerFires])
     = GenerationFanOut"
  by code_simp

lemma blocked_run_analysis:
  "analysisPromises
     (run_events (highlight Image True [img_el [] 200 100, img_el [] 300 200])
        [GenSettles 0 slow_image_call [],
         GenSettles 1 (ok_call (alt_payload ''simple_informative'' ''A red bicycle'')) [],
         TimerFires])
     = []"
  by code_simp

lemma free_run_stage:
  "stage
     (run_events (highlight Image True [img_el [] 200 100, img_el [] 300 200])
        [GenSettles 0 (ok_call (alt_payload ''simple_informative'' ''A blue kettle'')) [],
         GenSettles 1 (ok_call (alt_payload ''simple_informative'' ''A red bicycle'')) [],
         TimerFires])
     = AnalysisFanOut"
  by code_simp

text \<open>
  Claim C6 at two failures of a single node. First, an image whose request fails on
  the network: \<open>highlightImages\<close> has a \<open>catch\<close> that marks the node red and settles
  the task as failed, but \<open>generateAltText\<close> has caught the error before, so the fixed
  text is applied as \<open>alt\<close>, the node gets the green border and the task reports
  success; the same failure of a link marks the link red and reports failure. Second,
  two images of which the first is on a slow server of another origin: its context
  capture never settles, so its task stays pending; after the task of the second
  image has settled and whatever time passes, the run is still in the generation
  fan-out and no analysis task exists. With a first image whose captures resolve, the
  same events start the analysis fan-out.
\<close>

theorem node_failure_not_contained:
  "generationTask Image [img_el [] 200 100] 0 (resolved_call None) []
     = ([(setAttribute (img_el [] 200 100) ''alt'' ''AI-generated description unavailable'')
           \<lparr>border := ''3px solid green''\<rparr>], Fulfilled True) \<and>
   generationTask Link [text_link ''click here''] 0 (resolved_call None) []
     = ([(text_link ''click here'')\<lparr>outline := ''3px solid red''\<rparr>], Fulfilled False) \<and>
   inference_call slow_image_call = Hangs \<and>
   generationPromises
     (run_events (highlight Image True [img_el [] 200 100, img_el [] 300 200])
        [GenSettles 0 slow_image_call [],
         GenSettles 1 (ok_call (alt_payload ''simple_informative'' ''A red bicycle'')) [],
         TimerFires])
     = [(0, Pending), (1, Fulfilled True)] \<and>
   stage
     (run_events (highlight Image True [img_el [] 200 100, img_el [] 300 200])
        [GenSettles 0 slow_image_call [],
         GenSettles 1 (ok_call (alt_payload ''simple_informative'' ''A red bicycle'')) [],
         TimerFires])
     = GenerationFanOut \<and>
   analysisPromises
     (run_events (highlight Image True [img_el [] 200 100, img_el [] 300 200])
        [GenSettles 0 slow_image_call [],
         GenSettles 1 (ok_call (alt_payload ''simple_informative'' ''A red bicycle'')) [],
         TimerFires])
     = [] \<and>
   stage
     (run_events (highlight Image True [img_el [] 200 100, img_el [] 300 200])
        [GenSettles 0 (ok_call (alt_payload ''simple_informative'' ''A blue kettle'')) [],
         GenSettles 1 (ok_call (alt_payload ''simple_informative'' ''A red bicycle'')) [],
         TimerFires])
     = AnalysisFanOut"
  by (intro conjI image_network_failure link_network_failure slow_image_call_hangs
        blocked_run_promises blocked_run_stage blocked_run_analysis free_run_stage)

section \<open>The remediation applier and its markers\<close>

lemma addGeneratedLinkText_marker:
  "getAttribute (addGeneratedLinkText link t) ''data-ai-generated'' = Some ''true'' \<and>
   getAttribute (addGeneratedLinkText link t) ''data-original-text'' = Some (getLinkText link) \<and>
   textContent (addGeneratedLinkText link t) = t"
  by (simp add: addGeneratedLinkText_def Let_def getAttribute_setAttribute getAttribute_style)

lemma sel_marked_label:
  assumes "sel_label_for ident e"
  shows "sel_label_for ident (setAttribute (e\<lparr>textContent := t\<rparr>) ''data-ai-generated'' ''true'')"
    and "sel_ai_generated (setAttribute (e\<lparr>textContent := t\<rparr>) ''data-ai-generated'' ''true'')"
    and "textContent (setAttribute (e\<lparr>textContent := t\<rparr>) ''data-ai-generated'' ''true'') = t"
    and "attr_or_empty (setAttribute (e\<lparr>textContent := t\<rparr>) ''data-ai-generated'' ''true'') ''id''
           = attr_or_empty e ''id''"
  using assms
  by (simp_all add: sel_label_for_def sel_ai_generated_def getAttribute_setAttribute
        getAttribute_style attr_or_empty_def)

lemma addGeneratedLabel_marks_label:
  assumes "i < length d"
  shows "\<exists>j < length (addGeneratedLabel d i t fresh).
           sel_label_for (attr_or_empty (addGeneratedLabel d i t fresh ! i) ''id'')
             (addGeneratedLabel d i t fresh ! j) \<and>
           sel_ai_generated (addGeneratedLabel d i t fresh ! j) \<and>
           textContent (addGeneratedLabel d i t fresh ! j) = t"
proof (cases "querySelector (sel_label_for (attr_or_empty (d ! i) ''id'')) d")
  case (Some l)
  from querySelector_Some [OF Some]
  have l: "l < length d" "sel_label_for (attr_or_empty (d ! i) ''id'') (d ! l)" by simp_all
  define e where "e = setAttribute ((d ! l)\<lparr>textContent := t\<rparr>) ''data-ai-generated'' ''true''"
  have d': "addGeneratedLabel d i t fresh = d[l := e]"
    using Some by (simp add: addGeneratedLabel_def e_def)
  have el: "d[l := e] ! l = e" using l(1) by simp
  have ident: "attr_or_empty (d[l := e] ! i) ''id'' = attr_or_empty (d ! i) ''id''"
  proof (cases "i = l")
    case True
    then show ?thesis using l(1) sel_marked_label(4) [OF l(2), of t] by (simp add: e_def)
  next
    case False
    then show ?thesis by simp
  qed
  have a: "sel_label_for (attr_or_empty (d ! i) ''id'') e" "sel_ai_generated e" "textContent e = t"
    unfolding e_def by (rule sel_marked_label [OF l(2)])+
  have "l < length (d[l := e])" using l(1) by simp
  moreover have "sel_label_for (attr_or_empty (d[l := e] ! i) ''id'') (d[l := e] ! l)"
    using a(1) by (simp only: ident el)
  moreover have "sel_ai_generated (d[l := e] ! l)"
    using a(2) by (simp only: el)
  moreover have "textContent (d[l := e] ! l) = t"
    using a(3) by (simp only: el)
  ultimately show ?thesis unfolding d' by blast
next
  case None
  define inputElement where "inputElement =
     (if attr_or_empty (d ! i) ''id'' = []
      then setAttribute (d ! i) ''id'' (''ai-generated-'' @ fresh) else d ! i)"
  define label0 where "label0 = setAttribute (blank_element\<lparr>tagName := ''LABEL''\<rparr>) ''for''
                        (attr_or_empty inputElement ''id'')"
  define label where "label = setAttribute (label0\<lparr>textContent := t\<rparr>) ''data-ai-generated'' ''true''"
  have d': "addGeneratedLabel d i t fresh = d[i := inputElement] @ [label]"
    using None by (simp add: addGeneratedLabel_def Let_def inputElement_def label0_def label_def)
  have i: "(d[i := inputElement] @ [label]) ! i = inputElement"
    using assms by (simp add: nth_append)
  have j: "(d[i := inputElement] @ [label]) ! length d = label"
    by (simp add: nth_append)
  have s0: "sel_label_for (attr_or_empty inputElement ''id'') label0"
    by (simp add: label0_def sel_label_for_def getAttribute_setAttribute)
  have a: "sel_label_for (attr_or_empty inputElement ''id'') label" "sel_ai_generated label"
      "textContent label = t"
    unfolding label_def by (rule sel_marked_label [OF s0])+
  have "length d < length (d[i := inputElement] @ [label])" by simp
  moreover have "sel_label_for (attr_or_empty ((d[i := inputElement] @ [label]) ! i) ''id'')
      ((d[i := inputElement] @ [label]) ! length d)"
    using a(1) by (simp only: i j)
  moreover have "sel_ai_generated ((d[i := inputElement] @ [label]) ! length d)"
    using a(2) by (simp only: j)
  moreover have "textContent ((d[i := inputElement] @ [label]) ! length d) = t"
    using a(3) by (simp only: j)
  ultimately show ?thesis unfolding d' by blast
qed

lemma addGeneratedLabel_field_unmarked:
  assumes "i < length d" "tagName (d ! i) \<noteq> ''LABEL''"
  shows "getAttribute (addGeneratedLabel d i t fresh ! i) ''data-ai-generated''
           = getAttribute (d ! i) ''data-ai-generated''"
proof (cases "querySelector (sel_label_for (attr_or_empty (d ! i) ''id'')) d")
  case (Some l)
  from querySelector_Some [OF Some] have "tagName (d ! l) = ''LABEL''"
    by (simp add: sel_label_for_def)
  with assms(2) have "l \<noteq> i" by auto
  then show ?thesis using Some by (simp add: addGeneratedLabel_def)
next
  case None
  then show ?thesis using assms(1)
    by (simp add: addGeneratedLabel_def Let_def nth_append getAttribute_setAttribute)
qed

lemma imageTask_other_attributes:
  assumes "i < length d" "k \<noteq> ''alt''"
  shows "getAttribute (fst (imageTask d i c) ! i) k = getAttribute (d ! i) k"
  using assms
  by (simp add: imageTask_def imageApply_def Let_def getAttribute_setAttribute getAttribute_style
        split: settled.splits)

text \<open>
  Claim C8, as the code has it. \<open>addGeneratedLinkText\<close> leaves the marker
  \<open>data-ai-generated\<close> and the original text on the link. \<open>addGeneratedLabel\<close>
  leaves the marker on the label element it fills, which is the label of the field,
  and not on the field. Applying a generated description to an image changes the
  \<open>alt\<close> attribute only.
\<close>

theorem provenance_markers_by_category:
  "getAttribute (addGeneratedLinkText link t) ''data-ai-generated'' = Some ''true'' \<and>
   getAttribute (addGeneratedLinkText link t) ''data-original-text'' = Some (getLinkText link) \<and>
   (i < length d \<longrightarrow>
      (\<exists>j < length (addGeneratedLabel d i t fresh).
         sel_label_for (attr_or_empty (addGeneratedLabel d i t fresh ! i) ''id'')
           (addGeneratedLabel d i t fresh ! j) \<and>
         sel_ai_generated (addGeneratedLabel d i t fresh ! j) \<and>
         textContent (addGeneratedLabel d i t fresh ! j) = t)) \<and>
   (i < length d \<and> tagName (d ! i) \<noteq> ''LABEL'' \<longrightarrow>
      getAttribute (addGeneratedLabel d i t fresh ! i) ''data-ai-generated''
        = getAttribute (d ! i) ''data-ai-generated'') \<and>
   (i < length d \<and> k \<noteq> ''alt'' \<longrightarrow>
      getAttribute (fst (imageTask d i c) ! i) k = getAttribute (d ! i) k)"
  using addGeneratedLinkText_marker [of link t] addGeneratedLabel_marks_label [of i d t fresh]
    addGeneratedLabel_field_unmarked [of i d t fresh] imageTask_other_attributes [of i d k c]
  by blast

theorem provenance_markers_witness:
  "getAttribute (addGeneratedLabel [input_el ''email'' []] 0 ''Email address'' ''17'' ! 0)
     ''data-ai-generated'' = getAttribute ([input_el ''email'' []] ! 0) ''data-ai-generated'' \<and>
   getAttribute (fst (imageTask [img_el [] 200 100] 0
       (ok_call (alt_payload ''simple_informative'' ''A red bicycle''))) ! 0) ''data-ai-generated''
     = getAttribute ([img_el [] 200 100] ! 0) ''data-ai-generated''"
proof -
  have 1: "(0::nat) < length [input_el ''email'' []] \<and>
           tagName ([input_el ''email'' []] ! 0) \<noteq> ''LABEL''"
    by (simp add: input_el_def blank_element_def)
  have 2: "(0::nat) < length [img_el [] 200 100] \<and> ''data-ai-generated'' \<noteq> ''alt''"
    by simp
  show ?thesis
    using provenance_markers_by_category
        [where i = 0 and d = "[input_el ''email'' []]" and t = "''Email address''"
           and fresh = "''17''"] 1
      provenance_markers_by_category
        [where i = 0 and d = "[img_el [] 200 100]" and k = "''data-ai-generated''"
           and c = "ok_call (alt_payload ''simple_informative'' ''A red bicycle'')"] 2
    by blast
qed

text \<open>
  After a successful generation the image carries its \<open>alt\<close> and no marker.
\<close>

theorem image_apply_no_marker_counterexample:
  "snd (imageTask [img_el [] 200 100] 0
          (ok_call (alt_payload ''simple_informative'' ''A red bicycle''))) = Fulfilled True \<and>
   attrs (fst (imageTask [img_el [] 200 100] 0
          (ok_call (alt_payload ''simple_informative'' ''A red bicycle''))) ! 0)
     = [(''alt'', ''A red bicycle'')] \<and>
   getAttribute (fst (imageTask [img_el [] 200 100] 0
          (ok_call (alt_payload ''simple_informative'' ''A red bicycle''))) ! 0)
     ''data-ai-generated'' = None"
  by code_simp

section \<open>The capture renderer\<close>

lemma canvas_dim_le:
  assumes "v < real_of_int B + 1" "- (2 ^ 31) - 1 < v" "dflt \<le> B" "0 \<le> B"
  shows "canvas_dim dflt v \<le> B"
proof (cases "0 \<le> v")
  case True
  then have a: "0 \<le> \<lfloor>v\<rfloor>" by simp
  have b: "\<lfloor>v\<rfloor> \<le> B" using assms(1) by (simp add: floor_le_iff)
  have "\<lfloor>v\<rfloor> mod 2 ^ 32 \<le> \<lfloor>v\<rfloor>" using a by (rule zmod_le_nonneg_dividend)
  with b have "\<lfloor>v\<rfloor> mod 2 ^ 32 \<le> B" by linarith
  then show ?thesis using True assms(3) by (simp add: canvas_dim_def Let_def)
next
  case False
  then have c0: "\<lceil>v\<rceil> \<le> 0" by (simp add: ceiling_le_iff)
  have "real_of_int (- 2147483649) < v" using assms(2) by simp
  then have "- 2147483649 < \<lceil>v\<rceil>" by (simp only: less_ceiling_iff)
  then have c1: "- 2147483648 \<le> \<lceil>v\<rceil>" by linarith
  show ?thesis
  proof (cases "\<lceil>v\<rceil> = 0")
    case True
    then show ?thesis using False assms(4) by (simp add: canvas_dim_def Let_def)
  next
    case ne: False
    have "(\<lceil>v\<rceil> + 4294967296) mod 4294967296 = \<lceil>v\<rceil> + 4294967296"
      by (rule mod_pos_pos_trivial) (use c0 c1 ne in linarith)+
    moreover have "(\<lceil>v\<rceil> + 4294967296) mod 4294967296 = \<lceil>v\<rceil> mod 4294967296"
      by simp
    ultimately have m: "\<lceil>v\<rceil> mod 4294967296 = \<lceil>v\<rceil> + 4294967296" by simp
    have "\<not> \<lceil>v\<rceil> + 4294967296 \<le> 2147483647" using c1 by linarith
    then show ?thesis using False assms(3) by (simp add: canvas_dim_def Let_def m)
  qed
qed

lemma canvas_dim_floor:
  assumes "0 \<le> v" "v < 2 ^ 31"
  shows "canvas_dim dflt v = \<lfloor>v\<rfloor>"
proof -
  have a: "0 \<le> \<lfloor>v\<rfloor>" using assms(1) by simp
  have "\<lfloor>v\<rfloor> < 2 ^ 31" using assms(2) by (simp add: floor_less_iff)
  then have b: "\<lfloor>v\<rfloor> \<le> 2147483647" "\<lfloor>v\<rfloor> < 2 ^ 32" by simp_all
  have "\<lfloor>v\<rfloor> mod 2 ^ 32 = \<lfloor>v\<rfloor>" using a b(2) by (rule mod_pos_pos_trivial)
  then show ?thesis using assms(1) b(1) by (simp add: canvas_dim_def Let_def)
qed

lemma fits_canvas:
  assumes "w < real_of_int W + 1" "- (2 ^ 31) - 1 < w" "300 \<le> W"
    and "h < real_of_int H + 1" "- (2 ^ 31) - 1 < h" "150 \<le> H"
  shows "fits W H q (canvas w h q c)"
  using canvas_dim_le [OF assms(1,2), of 300] canvas_dim_le [OF assms(4,5), of 150] assms(3,6)
  by (simp add: fits_def canvas_def)

lemma double_rounding_mono: "double_rounding fl \<Longrightarrow> x \<le> y \<Longrightarrow> fl x \<le> fl y"
  by (simp add: double_rounding_def)

lemma double_rounding_zero: "double_rounding fl \<Longrightarrow> fl 0 = 0"
  by (simp add: double_rounding_def)

lemma double_rounding_nonneg:
  assumes "double_rounding fl" "0 \<le> x"
  shows "0 \<le> fl x"
  using double_rounding_mono [OF assms] double_rounding_zero [OF assms(1)] by simp

lemma double_rounding_rel:
  assumes "double_rounding fl" "1 / 2 ^ 1022 \<le> \<bar>x\<bar>" "\<bar>x\<bar> \<le> 2 ^ 1023"
  shows "\<bar>fl x - x\<bar> \<le> \<bar>x\<bar> / 2 ^ 53"
  using assms by (simp add: double_rounding_def)

lemma normal_range: "1 \<le> B \<Longrightarrow> B \<le> 2 ^ 32 \<Longrightarrow> 1 / 2 ^ 1022 \<le> \<bar>B\<bar> \<and> \<bar>B\<bar> \<le> 2 ^ 1023"
  for B :: real
proof -
  assume a: "1 \<le> B" "B \<le> 2 ^ 32"
  have "(1::real) / 2 ^ 1022 \<le> 1" by simp
  moreover have "(2::real) ^ 32 \<le> 2 ^ 1023" by (rule power_increasing) simp_all
  ultimately show ?thesis using a by linarith
qed

lemma double_rounding_upper:
  assumes "double_rounding fl" "x \<le> B" "1 \<le> B" "B \<le> 2 ^ 32"
  shows "fl x \<le> B + B / 2 ^ 53"
proof -
  have "fl x \<le> fl B" using assms(1,2) by (rule double_rounding_mono)
  moreover have "\<bar>fl B - B\<bar> \<le> \<bar>B\<bar> / 2 ^ 53"
    using double_rounding_rel [OF assms(1)] normal_range [OF assms(3,4)] by blast
  ultimately show ?thesis using assms(3) by linarith
qed

lemma double_rounding_lower:
  assumes "double_rounding fl" "- B \<le> x" "1 \<le> B" "B \<le> 2 ^ 32"
  shows "- B - B / 2 ^ 53 \<le> fl x"
proof -
  have "fl (- B) \<le> fl x" using assms(1,2) by (rule double_rounding_mono)
  moreover have "\<bar>fl (- B) - (- B)\<bar> \<le> \<bar>- B\<bar> / 2 ^ 53"
    using double_rounding_rel [OF assms(1), of "- B"] normal_range [OF assms(3,4)] by simp
  ultimately show ?thesis using assms(3) by linarith
qed

lemma fits_contextCanvas:
  assumes "plausible r win" "0 \<le> p" "double_rounding fl"
  shows "fits 800 600 context_quality (contextCanvas fl p r win c)"
proof -
  have "0 \<le> fl (r_width r + p * 2)" "0 \<le> fl (r_height r + p * 2)"
    using assms by (simp_all add: plausible_def double_rounding_nonneg)
  then have "- (2 ^ 31) - 1 < min 800 (min (innerWidth win) (fl (r_width r + p * 2)))"
    "- (2 ^ 31) - 1 < min 600 (min (innerHeight win) (fl (r_height r + p * 2)))"
    using assms(1) by (simp_all add: plausible_def)
  then show ?thesis
    unfolding contextCanvas_def Let_def by (intro fits_canvas) simp_all
qed

lemma fits_imageContextCanvas:
  assumes "plausible r win" "double_rounding fl"
  shows "fits 800 600 context_quality (imageContextCanvas fl r win c)"
proof -
  define margin where "margin = fl (max (r_width r) (r_height r) * (15 / 10))"
  have "0 \<le> max (r_width r) (r_height r) * (15 / 10)"
    using assms(1) by (auto simp: plausible_def max_def)
  then have m: "0 \<le> margin" unfolding margin_def by (rule double_rounding_nonneg [OF assms(2)])
  have "0 \<le> fl (r_width r + margin * 2)" "0 \<le> fl (r_height r + margin * 2)"
    using assms m by (simp_all add: plausible_def double_rounding_nonneg)
  then have "- (2 ^ 31) - 1 < min 800 (min (innerWidth win) (fl (r_width r + margin * 2)))"
    "- (2 ^ 31) - 1 < min 600 (min (innerHeight win) (fl (r_height r + margin * 2)))"
    using assms(1) by (simp_all add: plausible_def)
  then show ?thesis
    unfolding imageContextCanvas_def Let_def margin_def [symmetric]
    by (intro fits_canvas) simp_all
qed

lemma svg_side:
  assumes "double_rounding fl" "0 \<le> inner" "left < 2 ^ 31"
  shows "- (2 ^ 31) - 1 < fl (fl (inner - left) + 100)"
proof (cases "0 \<le> inner - left")
  case True
  then have "0 \<le> fl (inner - left)" by (rule double_rounding_nonneg [OF assms(1)])
  then have "0 \<le> fl (inner - left) + 100" by simp
  then have "0 \<le> fl (fl (inner - left) + 100)" by (rule double_rounding_nonneg [OF assms(1)])
  then show ?thesis by simp
next
  case False
  have "- (2 ^ 31) \<le> inner - left" using assms(2,3) by simp
  then have "- (2 ^ 31) - 2 ^ 31 / 2 ^ 53 \<le> fl (inner - left)"
    by (rule double_rounding_lower [OF assms(1)]) simp_all
  then have "- (2 ^ 31) \<le> fl (inner - left) + 100" by simp
  then have "- (2 ^ 31) - 2 ^ 31 / 2 ^ 53 \<le> fl (fl (inner - left) + 100)"
    by (rule double_rounding_lower [OF assms(1)]) simp_all
  then show ?thesis by simp
qed

lemma fits_svgContextCanvas:
  assumes "plausible r win" "double_rounding fl"
  shows "fits 800 600 context_quality (svgContextCanvas fl r win c)"
proof -
  have a: "- (2 ^ 31) - 1 < fl (fl (innerWidth win - r_left r) + 100)"
    "- (2 ^ 31) - 1 < fl (fl (innerHeight win - r_top r) + 100)"
    using assms(1) svg_side [OF assms(2), of "innerWidth win" "r_left r"]
      svg_side [OF assms(2), of "innerHeight win" "r_top r"]
    by (simp_all add: plausible_def)
  have b: "0 \<le> fl (r_width r + 100 * 2)" "0 \<le> fl (r_height r + 100 * 2)"
    using assms by (simp_all add: plausible_def double_rounding_nonneg)
  have "- (2 ^ 31) - 1 < min 800 (min (fl (fl (innerWidth win - r_left r) + 100))
                                       (fl (r_width r + 100 * 2)))"
    "- (2 ^ 31) - 1 < min 600 (min (fl (fl (innerHeight win - r_top r) + 100))
                                       (fl (r_height r + 100 * 2)))"
    using a b by simp_all
  then show ?thesis
    unfolding svgContextCanvas_def Let_def by (intro fits_canvas) simp_all
qed

lemma scaled_side:
  assumes "double_rounding fl" "800 < x" "x < 2 ^ 32" "0 \<le> ratio" "ratio \<le> fl (800 / x)"
  shows "0 \<le> fl (x * ratio) \<and> fl (x * ratio) < 801"
proof -
  have x: "0 < x" using assms(2) by simp
  have q: "0 \<le> 800 / x" "800 / x \<le> 1" using assms(2) by simp_all
  have lo: "1 / 2 ^ 1022 \<le> 800 / x"
  proof -
    have "(1::real) / 2 ^ 1022 \<le> 800 / 2 ^ 32" by simp
    also have "\<dots> \<le> 800 / x" using x assms(3) by (intro divide_left_mono) simp_all
    finally show ?thesis .
  qed
  have hi: "800 / x \<le> 2 ^ 1023"
  proof -
    have "800 / x \<le> 1" by (rule q)
    also have "(1::real) \<le> 2 ^ 1023" by simp
    finally show ?thesis .
  qed
  have "\<bar>fl (800 / x) - 800 / x\<bar> \<le> \<bar>800 / x\<bar> / 2 ^ 53"
    using lo hi q(1) by (intro double_rounding_rel [OF assms(1)]) simp_all
  then have "fl (800 / x) \<le> 800 / x + (800 / x) / 2 ^ 53" using q(1) by linarith
  with assms(5) have "ratio \<le> 800 / x + (800 / x) / 2 ^ 53" by linarith
  then have "x * ratio \<le> x * (800 / x + (800 / x) / 2 ^ 53)"
    using x by (intro mult_left_mono) simp_all
  also have "\<dots> = 800 + 800 / 2 ^ 53" using x by (simp add: field_simps)
  finally have u: "x * ratio \<le> 800 + 800 / 2 ^ 53" .
  have "fl (x * ratio) \<le> (800 + 800 / 2 ^ 53) + (800 + 800 / 2 ^ 53) / 2 ^ 53"
    using u by (rule double_rounding_upper [OF assms(1)]) simp_all
  then have "fl (x * ratio) < 801" by simp
  moreover have "0 \<le> fl (x * ratio)"
    using x assms(4) by (intro double_rounding_nonneg [OF assms(1)]) simp
  ultimately show ?thesis by simp
qed

lemma scaled_bounds:
  assumes "double_rounding fl" "w < 2 ^ 32" "h < 2 ^ 32"
  shows "0 \<le> fst (scaled fl w h) \<and> fst (scaled fl w h) < 801 \<and>
         0 \<le> snd (scaled fl w h) \<and> snd (scaled fl w h) < 801"
proof (cases "w > 800 \<or> h > 800")
  case False
  then show ?thesis by (simp add: scaled_def)
next
  case big: True
  have rw: "real w < 2 ^ 32" "real h < 2 ^ 32"
    using assms(2,3) by (simp_all add: of_nat_less_numeral_power_cancel_iff)
  define ratio where "ratio = (if w = 0 then fl (800 / real h)
                         else if h = 0 then fl (800 / real w)
                         else min (fl (800 / real w)) (fl (800 / real h)))"
  have s: "scaled fl w h = (fl (real w * ratio), fl (real h * ratio))"
    using big by (simp add: scaled_def Let_def ratio_def)
  have r0: "0 \<le> ratio"
    unfolding ratio_def by (simp add: double_rounding_nonneg [OF assms(1)])
  have z: "fl (0 * ratio) = 0" using double_rounding_zero [OF assms(1)] by simp
  have le800: "0 \<le> fl (real n * ratio) \<and> fl (real n * ratio) < 801"
    if n: "n \<le> 800" "ratio \<le> fl 1" "real n < 2 ^ 32" for n
  proof -
    have "fl 1 \<le> 1 + 1 / 2 ^ 53"
      using double_rounding_upper [OF assms(1), of 1 1] by simp
    with n(2) have r1: "ratio \<le> 1 + 1 / 2 ^ 53" by linarith
    have "real n * ratio \<le> real n * (1 + 1 / 2 ^ 53)"
      using r1 by (intro mult_left_mono) simp_all
    also have "\<dots> \<le> 800 * (1 + 1 / 2 ^ 53)"
      using n(1) by (intro mult_right_mono) simp_all
    finally have "real n * ratio \<le> 800 + 800 / 2 ^ 53" by simp
    then have "fl (real n * ratio) \<le> (800 + 800 / 2 ^ 53) + (800 + 800 / 2 ^ 53) / 2 ^ 53"
      by (rule double_rounding_upper [OF assms(1)]) simp_all
    then have "fl (real n * ratio) < 801" by simp
    moreover have "0 \<le> fl (real n * ratio)"
      using r0 by (intro double_rounding_nonneg [OF assms(1)]) simp
    ultimately show ?thesis by simp
  qed
  have side: "0 \<le> fl (real n * ratio) \<and> fl (real n * ratio) < 801"
    if n: "n = w \<or> n = h" for n
  proof (cases "800 < n")
    case True
    then have "ratio \<le> fl (800 / real n)"
      using n by (auto simp: ratio_def)
    moreover have "800 < real n" using True by simp
    moreover have "real n < 2 ^ 32" using n rw by auto
    ultimately show ?thesis using r0 by (intro scaled_side [OF assms(1)])
  next
    case False
    obtain m where m: "(m = w \<or> m = h) \<and> 800 < m" using big by auto
    then have pm: "0 < real m" by simp
    have "ratio \<le> fl (800 / real m)" using m by (auto simp: ratio_def)
    also have "fl (800 / real m) \<le> fl 1"
      using m pm by (intro double_rounding_mono [OF assms(1)]) simp
    finally have "ratio \<le> fl 1" .
    moreover have "real n < 2 ^ 32" using n rw by auto
    ultimately show ?thesis using False by (intro le800) simp_all
  qed
  show ?thesis unfolding s using side [of w] side [of h] by simp
qed

lemma fits_rendered:
  assumes "double_rounding fl" "w < 2 ^ 32" "h < 2 ^ 32"
  shows "fits 800 800 isolated_quality (rendered fl w h)"
  unfolding rendered_def using scaled_bounds [OF assms]
  by (intro fits_canvas) simp_all

lemma fits_imageFallback: "fits 800 800 isolated_quality imageFallback"
  unfolding imageFallback_def by (intro fits_canvas) simp_all

lemma resolve_keeps:
  assumes "all_resolved P s" "P c"
  shows "all_resolved P (resolve t c s)"
  using assms by (cases "snd s") (simp_all add: resolve_def all_resolved_def)

lemma set_insert_event: "set (insert_event e xs) = insert e (set xs)"
  by (induction xs) auto

lemma set_foldl_insert_event:
  "set (foldl (\<lambda>acc e. insert_event e acc) acc es) = set acc \<union> set es"
  by (induction es arbitrary: acc) (simp_all add: set_insert_event)

lemma set_in_time_order: "set (in_time_order es) = set es"
  by (simp add: in_time_order_def set_foldl_insert_event)

lemma load_events_sized:
  "sizes_ok l \<Longrightarrow> e \<in> set (load_events start second l) \<Longrightarrow> sized_handler (snd e)"
  by (cases l) (auto simp: sizes_ok_def sized_handler_def)

lemma image_events_sized:
  assumes "sizes_ok (load1 env)" "sizes_ok (load2 env)" "e \<in> set (image_events env)"
  shows "sized_handler (snd e)"
proof -
  from assms(3) consider "e \<in> set (load_events 0 False (load1 env))"
    | "e \<in> set (load_events 2000 True (load2 env))" | "e = (10000, Timeout)"
    by (auto simp: image_events_def set_in_time_order split: if_splits)
  then show ?thesis
  proof cases
    case 1
    then show ?thesis using assms(1) by (rule load_events_sized [rotated])
  next
    case 2
    then show ?thesis using assms(2) by (rule load_events_sized [rotated])
  next
    case 3
    then show ?thesis by (simp add: sized_handler_def)
  qed
qed

lemma imageOnlyHandler_keeps:
  assumes "all_resolved (fits 800 800 isolated_quality) s" "double_rounding (rounding env)"
    "sized_handler (snd e)"
  shows "all_resolved (fits 800 800 isolated_quality) (imageOnlyHandler env s e)"
  unfolding imageOnlyHandler_def
  using assms(3)
  by (cases "snd e")
     (simp_all add: resolve_keeps [OF assms(1)] fits_rendered [OF assms(2)] fits_imageFallback
        sized_handler_def)

lemma foldl_imageOnlyHandler_keeps:
  "all_resolved (fits 800 800 isolated_quality) s \<Longrightarrow> double_rounding (rounding env) \<Longrightarrow>
   list_all (\<lambda>e. sized_handler (snd e)) es \<Longrightarrow>
   all_resolved (fits 800 800 isolated_quality) (foldl (imageOnlyHandler env) s es)"
  by (induction es arbitrary: s) (simp_all add: imageOnlyHandler_keeps)

lemma all_resolved_taint: "all_resolved P s \<Longrightarrow> all_resolved P (b, snd s)"
  by (simp add: all_resolved_def)

lemma imageContextHandler_keeps:
  assumes "all_resolved (fits 800 600 context_quality) s" "plausible r win"
    "double_rounding (rounding env)"
  shows "all_resolved (fits 800 600 context_quality) (imageContextHandler r win env s e)"
  unfolding imageContextHandler_def Let_def
  using assms(1)
  by (cases "snd e")
     (simp_all add: resolve_keeps [OF assms(1)] fits_imageContextCanvas [OF assms(2,3)]
        all_resolved_taint)

lemma foldl_imageContextHandler_keeps:
  "all_resolved (fits 800 600 context_quality) s \<Longrightarrow> plausible r win \<Longrightarrow>
   double_rounding (rounding env) \<Longrightarrow>
   all_resolved (fits 800 600 context_quality) (foldl (imageContextHandler r win env) s es)"
  by (induction es arbitrary: s) (simp_all add: imageContextHandler_keeps)

lemma first_resolve_mem: "first_resolve xs = Some x \<Longrightarrow> x \<in> set xs"
  by (induction xs arbitrary: x) (auto split: option.splits if_splits)

lemma svg_load_calls_P:
  assumes "\<And>w h. w < 2 ^ 32 \<Longrightarrow> h < 2 ^ 32 \<Longrightarrow> P (render w h)" "P fallback" "sizes_ok l"
  shows "x \<in> set (svg_load_calls start render fallback l) \<Longrightarrow> P (snd x)"
  using assms by (cases l) (auto simp: sizes_ok_def split: if_splits)

lemma svg_fetch_calls_P:
  assumes "\<And>w h. w < 2 ^ 32 \<Longrightarrow> h < 2 ^ 32 \<Longrightarrow> P (render w h)" "P fallback"
    "sizes_ok (svg_load env)"
  shows "x \<in> set (svg_fetch_calls render fallback env) \<Longrightarrow> P (snd x)"
  using assms(2) svg_load_calls_P [of P render fallback "svg_load env" x, OF assms(1) assms(2,3)]
  by (auto simp: svg_fetch_calls_def split: fetched.splits if_splits)

lemma fits_small: "fits 800 800 isolated_quality (canvas 400 300 isolated_quality c)"
  "fits 800 800 isolated_quality (canvas 300 200 isolated_quality c)"
  "fits 800 600 context_quality (canvas 400 300 context_quality c)"
  by (intro fits_canvas; simp)+

lemma fits_svgRendered:
  assumes "double_rounding fl" "w < 2 ^ 32" "h < 2 ^ 32"
  shows "fits 800 800 isolated_quality (svgRendered fl w h)"
  unfolding svgRendered_def using assms(2,3)
  by (intro fits_rendered [OF assms(1)]) simp_all

lemma svg_calls_fit:
  assumes "x \<in> set (svg_calls src tag env)" "double_rounding (svg_rounding env)"
    "sizes_ok (svg_load env)"
  shows "fits 800 800 isolated_quality (snd x)"
proof -
  let ?render = "svgRendered (svg_rounding env)"
  have f: "x \<in> set (svg_fetch_calls ?render imageFallback env) \<Longrightarrow>
           fits 800 800 isolated_quality (snd x)"
    by (rule svg_fetch_calls_P [of "fits 800 800 isolated_quality" ?render imageFallback])
       (simp_all add: fits_svgRendered [OF assms(2)] fits_imageFallback assms(3))
  have l: "x \<in> set (svg_load_calls 0 ?render imageFallback (svg_load env)) \<Longrightarrow>
           fits 800 800 isolated_quality (snd x)"
    by (rule svg_load_calls_P [of "fits 800 800 isolated_quality" ?render imageFallback])
       (simp_all add: fits_svgRendered [OF assms(2)] fits_imageFallback assms(3))
  from assms(1) consider "x \<in> set (svg_fetch_calls ?render imageFallback env)"
    | "x \<in> set (svg_load_calls 0 ?render imageFallback (svg_load env))"
    | "snd x = imageFallback"
    by (auto simp: svg_calls_def split: if_splits)
  then show ?thesis using f l fits_imageFallback by cases simp_all
qed

lemma svg_context_calls_fit:
  assumes "x \<in> set (svg_context_calls r win src env)" "plausible r win"
    "double_rounding (svg_rounding env)" "sizes_ok (svg_load env)"
  shows "fits 800 600 context_quality (snd x)"
proof -
  let ?fl = "svg_rounding env"
  have f: "x \<in> set (svg_fetch_calls (\<lambda>w h. svgContextCanvas ?fl r win Rendered)
                 (svgContextCanvas ?fl r win Placeholder) env) \<Longrightarrow>
           fits 800 600 context_quality (snd x)"
    by (rule svg_fetch_calls_P [of "fits 800 600 context_quality"
            "\<lambda>w h. svgContextCanvas ?fl r win Rendered" "svgContextCanvas ?fl r win Placeholder"])
       (simp_all add: fits_svgContextCanvas [OF assms(2,3)] assms(4))
  have l: "x \<in> set (svg_load_calls 0 (\<lambda>w h. svgContextCanvas ?fl r win Rendered)
                 (svgContextCanvas ?fl r win Placeholder) (svg_load env)) \<Longrightarrow>
           fits 800 600 context_quality (snd x)"
    by (rule svg_load_calls_P [of "fits 800 600 context_quality"
            "\<lambda>w h. svgContextCanvas ?fl r win Rendered" "svgContextCanvas ?fl r win Placeholder"])
       (simp_all add: fits_svgContextCanvas [OF assms(2,3)] assms(4))
  from assms(1) consider
      "x \<in> set (svg_fetch_calls (\<lambda>w h. svgContextCanvas ?fl r win Rendered)
                 (svgContextCanvas ?fl r win Placeholder) env)"
    | "x \<in> set (svg_load_calls 0 (\<lambda>w h. svgContextCanvas ?fl r win Rendered)
                 (svgContextCanvas ?fl r win Placeholder) (svg_load env))"
    | "snd x = svgContextCanvas ?fl r win Placeholder"
    by (auto simp: svg_context_calls_def split: if_splits)
  then show ?thesis using f l fits_svgContextCanvas [OF assms(2,3)] by cases simp_all
qed

lemma captureSVGAsBase64_fits:
  assumes "captureSVGAsBase64 src tag env = Some (t, c)" "double_rounding (svg_rounding env)"
    "sizes_ok (svg_load env)"
  shows "fits 800 800 isolated_quality c"
proof (cases "svg_setup_ok env")
  case False
  with assms(1) show ?thesis by (auto simp: captureSVGAsBase64_def fits_small)
next
  case True
  with assms(1) have "first_resolve (svg_calls src tag env) = Some (t, c)"
    by (simp add: captureSVGAsBase64_def)
  then have "(t, c) \<in> set (svg_calls src tag env)" by (rule first_resolve_mem)
  from svg_calls_fit [OF this assms(2,3)] show ?thesis by simp
qed

lemma captureSVGContextAsBase64_fits:
  assumes "captureSVGContextAsBase64 r win src env = Some (t, c)" "plausible r win"
    "double_rounding (svg_rounding env)" "sizes_ok (svg_load env)"
  shows "fits 800 600 context_quality c"
proof (cases "svg_setup_ok env")
  case False
  with assms(1) show ?thesis by (auto simp: captureSVGContextAsBase64_def fits_small)
next
  case True
  with assms(1) have "first_resolve (svg_context_calls r win src env) = Some (t, c)"
    by (simp add: captureSVGContextAsBase64_def)
  then have "(t, c) \<in> set (svg_context_calls r win src env)" by (rule first_resolve_mem)
  from svg_context_calls_fit [OF this assms(2,3,4)] show ?thesis by simp
qed

lemma captureRegularImage_fits:
  assumes "captureRegularImage env = Some (t, c)" "double_rounding (rounding env)"
    "sizes_ok (load1 env)" "sizes_ok (load2 env)"
  shows "fits 800 800 isolated_quality c"
proof (cases "setup_ok env")
  case False
  with assms(1) show ?thesis by (auto simp: captureRegularImage_def fits_small)
next
  case True
  have "list_all (\<lambda>e. sized_handler (snd e)) (image_events env)"
    unfolding list_all_iff using image_events_sized [OF assms(3,4)] by blast
  then have "all_resolved (fits 800 800 isolated_quality)
          (foldl (imageOnlyHandler env) (False, None) (image_events env))"
    by (intro foldl_imageOnlyHandler_keeps assms(2)) (simp_all add: all_resolved_def)
  with assms(1) True show ?thesis by (simp add: captureRegularImage_def all_resolved_def)
qed

lemma captureRegularImageWithContext_fits:
  assumes "captureRegularImageWithContext r win env = Some (t, c)" "plausible r win"
    "double_rounding (rounding env)"
  shows "fits 800 600 context_quality c"
proof (cases "setup_ok env")
  case False
  with assms(1) show ?thesis by (auto simp: captureRegularImageWithContext_def fits_small)
next
  case True
  have "all_resolved (fits 800 600 context_quality)
          (foldl (imageContextHandler r win env) (False, None) (image_events env))"
    by (rule foldl_imageContextHandler_keeps) (simp_all add: assms(2,3) all_resolved_def)
  with assms(1) True show ?thesis by (simp add: captureRegularImageWithContext_def all_resolved_def)
qed

lemma context_fits:
  assumes "plausible r win" "double_rounding fl"
  shows "captureInputWithContext fl r win dok = Some (t, c) \<Longrightarrow> fits 800 600 context_quality c"
    and "captureLinkWithContext fl r win dok = Some (t, c) \<Longrightarrow> fits 800 600 context_quality c"
  using fits_contextCanvas [OF assms(1) _ assms(2), of 150] fits_small(3)
  by (auto simp: captureInputWithContext_def captureLinkWithContext_def split: if_splits)

lemma isolated_size:
  assumes "v < 2 ^ 31" "0 \<le> m" "m < 2 ^ 31"
  shows "canvas_dim dflt (max m v) = \<lfloor>max m v\<rfloor>"
  using assms by (intro canvas_dim_floor) (simp_all add: max_def)

lemma captureInputField_size:
  assumes "captureInputField fl r dok = Some (t, c)"
  shows "quality c = isolated_quality"
    and "dok \<Longrightarrow> fl (r_width r + 20) < 2 ^ 31 \<Longrightarrow> cwidth c = \<lfloor>max 200 (fl (r_width r + 20))\<rfloor>"
    and "dok \<Longrightarrow> fl (r_height r + 20) < 2 ^ 31 \<Longrightarrow> cheight c = \<lfloor>max 50 (fl (r_height r + 20))\<rfloor>"
    and "\<not> dok \<Longrightarrow> cwidth c = 300 \<and> cheight c = 60"
proof -
  show "quality c = isolated_quality"
    using assms by (auto simp: captureInputField_def canvas_def split: if_splits)
  show "cwidth c = \<lfloor>max 200 (fl (r_width r + 20))\<rfloor>" if "dok" "fl (r_width r + 20) < 2 ^ 31"
    using assms that isolated_size [of "fl (r_width r + 20)" 200 300]
    by (auto simp: captureInputField_def canvas_def)
  show "cheight c = \<lfloor>max 50 (fl (r_height r + 20))\<rfloor>" if "dok" "fl (r_height r + 20) < 2 ^ 31"
    using assms that isolated_size [of "fl (r_height r + 20)" 50 150]
    by (auto simp: captureInputField_def canvas_def)
  show "cwidth c = 300 \<and> cheight c = 60" if "\<not> dok"
    using assms that by (auto simp: captureInputField_def canvas_def canvas_dim_def)
qed

lemma captureLinkElement_size:
  assumes "captureLinkElement fl r dok = Some (t, c)"
  shows "quality c = isolated_quality"
    and "dok \<Longrightarrow> fl (r_width r + 20) < 2 ^ 31 \<Longrightarrow> cwidth c = \<lfloor>max 200 (fl (r_width r + 20))\<rfloor>"
    and "dok \<Longrightarrow> fl (r_height r + 20) < 2 ^ 31 \<Longrightarrow> cheight c = \<lfloor>max 40 (fl (r_height r + 20))\<rfloor>"
    and "\<not> dok \<Longrightarrow> cwidth c = 300 \<and> cheight c = 50"
proof -
  show "quality c = isolated_quality"
    using assms by (auto simp: captureLinkElement_def canvas_def split: if_splits)
  show "cwidth c = \<lfloor>max 200 (fl (r_width r + 20))\<rfloor>" if "dok" "fl (r_width r + 20) < 2 ^ 31"
    using assms that isolated_size [of "fl (r_width r + 20)" 200 300]
    by (auto simp: captureLinkElement_def canvas_def)
  show "cheight c = \<lfloor>max 40 (fl (r_height r + 20))\<rfloor>" if "dok" "fl (r_height r + 20) < 2 ^ 31"
    using assms that isolated_size [of "fl (r_height r + 20)" 40 150]
    by (auto simp: captureLinkElement_def canvas_def)
  show "cwidth c = 300 \<and> cheight c = 50" if "\<not> dok"
    using assms that by (auto simp: captureLinkElement_def canvas_def canvas_dim_def)
qed

text \<open>
  Claim C7, as the code has it, for a page geometry that is plausible and the
  arithmetic and image sizes of a browser. A context capture of any category is at
  most 800 by 600 and is encoded at quality 0.6. An isolated capture of an image or
  vector graphic is at most 800 by 800 and is encoded at quality 0.8. An isolated
  capture of a form field or link is encoded at quality 0.8 and has no upper bound:
  when it is drawn, its width is the width of the element plus 20, or 200 if that is
  more, and its height is the height of the element plus 20, or 50 for a form field
  and 40 for a link if that is more, cut to whole pixels; the fallback drawing is
  300 by 60 for a form field and 300 by 50 for a link.
\<close>

theorem capture_bounds:
  assumes "plausible r win" and "double_rounding fl" and "browser_env env senv"
  shows "(captureInputWithContext fl r win dok = Some (t, c) \<longrightarrow> fits 800 600 context_quality c) \<and>
         (captureLinkWithContext fl r win dok = Some (t, c) \<longrightarrow> fits 800 600 context_quality c) \<and>
         (captureImageWithContext r win src tag ty env senv = Some (t, c) \<longrightarrow>
            fits 800 600 context_quality c) \<and>
         (captureImageOnly src tag ty env senv = Some (t, c) \<longrightarrow> fits 800 800 isolated_quality c) \<and>
         (captureInputField fl r dok = Some (t, c) \<longrightarrow>
            quality c = isolated_quality \<and>
            (dok \<and> fl (r_width r + 20) < 2 ^ 31 \<longrightarrow>
               cwidth c = \<lfloor>max 200 (fl (r_width r + 20))\<rfloor>) \<and>
            (dok \<and> fl (r_height r + 20) < 2 ^ 31 \<longrightarrow>
               cheight c = \<lfloor>max 50 (fl (r_height r + 20))\<rfloor>) \<and>
            (\<not> dok \<longrightarrow> cwidth c = 300 \<and> cheight c = 60)) \<and>
         (captureLinkElement fl r dok = Some (t, c) \<longrightarrow>
            quality c = isolated_quality \<and>
            (dok \<and> fl (r_width r + 20) < 2 ^ 31 \<longrightarrow>
               cwidth c = \<lfloor>max 200 (fl (r_width r + 20))\<rfloor>) \<and>
            (dok \<and> fl (r_height r + 20) < 2 ^ 31 \<longrightarrow>
               cheight c = \<lfloor>max 40 (fl (r_height r + 20))\<rfloor>) \<and>
            (\<not> dok \<longrightarrow> cwidth c = 300 \<and> cheight c = 50))"
proof -
  from assms(3) have env: "double_rounding (rounding env)" "double_rounding (svg_rounding senv)"
    "sizes_ok (load1 env)" "sizes_ok (load2 env)" "sizes_ok (svg_load senv)"
    by (simp_all add: browser_env_def)
  have 1: "captureInputWithContext fl r win dok = Some (t, c) \<longrightarrow> fits 800 600 context_quality c"
    using context_fits(1) [OF assms(1,2)] by blast
  have 2: "captureLinkWithContext fl r win dok = Some (t, c) \<longrightarrow> fits 800 600 context_quality c"
    using context_fits(2) [OF assms(1,2)] by blast
  have 3: "captureImageWithContext r win src tag ty env senv = Some (t, c) \<longrightarrow>
            fits 800 600 context_quality c"
    using captureSVGContextAsBase64_fits [OF _ assms(1) env(2,5), of src t c]
      captureRegularImageWithContext_fits [OF _ assms(1) env(1), of t c]
    by (simp add: captureImageWithContext_def)
  have 4: "captureImageOnly src tag ty env senv = Some (t, c) \<longrightarrow> fits 800 800 isolated_quality c"
    using captureSVGAsBase64_fits [OF _ env(2,5), of src tag t c]
      captureRegularImage_fits [OF _ env(1,3,4), of t c]
    by (simp add: captureImageOnly_def)
  have 5: "captureInputField fl r dok = Some (t, c) \<longrightarrow>
            quality c = isolated_quality \<and>
            (dok \<and> fl (r_width r + 20) < 2 ^ 31 \<longrightarrow>
               cwidth c = \<lfloor>max 200 (fl (r_width r + 20))\<rfloor>) \<and>
            (dok \<and> fl (r_height r + 20) < 2 ^ 31 \<longrightarrow>
               cheight c = \<lfloor>max 50 (fl (r_height r + 20))\<rfloor>) \<and>
            (\<not> dok \<longrightarrow> cwidth c = 300 \<and> cheight c = 60)"
    using captureInputField_size [of fl r dok t c] by blast
  have 6: "captureLinkElement fl r dok = Some (t, c) \<longrightarrow>
            quality c = isolated_quality \<and>
            (dok \<and> fl (r_width r + 20) < 2 ^ 31 \<longrightarrow>
               cwidth c = \<lfloor>max 200 (fl (r_width r + 20))\<rfloor>) \<and>
            (dok \<and> fl (r_height r + 20) < 2 ^ 31 \<longrightarrow>
               cheight c = \<lfloor>max 40 (fl (r_height r + 20))\<rfloor>) \<and>
            (\<not> dok \<longrightarrow> cwidth c = 300 \<and> cheight c = 50)"
    using captureLinkElement_size [of fl r dok t c] by blast
  show ?thesis
    apply (intro conjI)
         apply (rule 1)
        apply (rule 2)
       apply (rule 3)
      apply (rule 4)
     apply (rule 5)
    apply (rule 6)
    done
qed

theorem capture_bounds_witness:
  "fits 800 600 context_quality
     (imageContextCanvas (rounding not_found) some_rect some_viewport Placeholder) \<and>
   cwidth (canvas 200 40 isolated_quality Rendered) = 200 \<and>
   cheight (canvas 200 40 isolated_quality Rendered) = 40"
proof -
  have p: "plausible some_rect some_viewport"
    by (simp add: plausible_def some_rect_def some_viewport_def)
  have q: "plausible \<lparr>r_left = 40, r_top = 120, r_width = 60, r_height = 18\<rparr> some_viewport"
    by (simp add: plausible_def some_viewport_def)
  have d: "double_rounding (\<lambda>x. x)"
    by (simp add: double_rounding_def)
  have b: "browser_env not_found no_svg"
    by (simp add: browser_env_def double_rounding_def sizes_ok_def not_found_def no_svg_def)
  have e: "captureImageWithContext some_rect some_viewport ''https://example.org/a.png'' ''IMG'' []
             not_found no_svg
           = Some (80, imageContextCanvas (rounding not_found) some_rect some_viewport Placeholder)"
    by (simp add: captureImageWithContext_def isSVG_def captureRegularImageWithContext_def
          not_found_def image_events_def in_time_order_def imageContextHandler_def resolve_def)
  have l: "captureLinkElement (\<lambda>x. x) \<lparr>r_left = 40, r_top = 120, r_width = 60, r_height = 18\<rparr> True
           = Some (0, canvas 200 40 isolated_quality Rendered)"
    by (simp add: captureLinkElement_def)
  note c2 = conjunct2
  have 1: "fits 800 600 context_quality
     (imageContextCanvas (rounding not_found) some_rect some_viewport Placeholder)"
    using capture_bounds [OF p d b, where src = "''https://example.org/a.png''"
        and tag = "''IMG''" and ty = "[]", THEN c2, THEN c2, THEN conjunct1] e
    by blast
  have 2: "cwidth (canvas 200 40 isolated_quality Rendered) = \<lfloor>max 200 ((60::real) + 20)\<rfloor> \<and>
           cheight (canvas 200 40 isolated_quality Rendered) = \<lfloor>max 40 ((18::real) + 20)\<rfloor>"
    using capture_bounds [OF q d b, where dok = True, THEN c2, THEN c2, THEN c2, THEN c2, THEN c2] l
    by simp
  show ?thesis using 1 2 by simp
qed

text \<open>
  A form field 1000 pixels wide is captured 1020 pixels wide, a link 18 pixels high
  is captured 40 pixels high, and an image of 700 by 700 pixels is captured as it
  is, 700 pixels high. No rounding takes part in these: the sums are whole numbers
  and the image is not scaled.
\<close>

theorem wide_field_capture_counterexample:
  "captureInputField (\<lambda>x. x) \<lparr>r_left = 0, r_top = 0, r_width = 1000, r_height = 30\<rparr> True
     = Some (0, \<lparr>cwidth = 1020, cheight = 50, quality = 8 / 10, drawn = Rendered\<rparr>) \<and>
   captureLinkElement (\<lambda>x. x) \<lparr>r_left = 0, r_top = 0, r_width = 60, r_height = 18\<rparr> True
     = Some (0, \<lparr>cwidth = 200, cheight = 40, quality = 8 / 10, drawn = Rendered\<rparr>) \<and>
   captureRegularImage
       \<lparr>rounding = (\<lambda>x. x), setup_ok = True, cross_origin = False,
        load1 = Loads 50 700 700 True, load2 = NeverSettles\<rparr>
     = Some (50, \<lparr>cwidth = 700, cheight = 700, quality = 8 / 10, drawn = Rendered\<rparr>)"
  by (simp add: captureInputField_def captureLinkElement_def canvas_def canvas_dim_def
        captureRegularImage_def image_events_def in_time_order_def imageOnlyHandler_def
        resolve_def rendered_def scaled_def isolated_quality_def)

lemma sorted_insert_event:
  "sorted (map fst xs) \<Longrightarrow> sorted (map fst (insert_event e xs))"
  by (induction xs) (auto simp: set_insert_event)

lemma foldl_insert_event:
  "sorted (map fst acc) \<Longrightarrow>
   sorted (map fst (foldl (\<lambda>acc e. insert_event e acc) acc es)) \<and>
   set (foldl (\<lambda>acc e. insert_event e acc) acc es) = set acc \<union> set es"
  by (induction es arbitrary: acc) (auto simp: sorted_insert_event set_insert_event)

lemma in_time_order_sorted:
  "sorted (map fst (in_time_order es))" "set (in_time_order es) = set es"
  using foldl_insert_event [of "[]" es] by (simp_all add: in_time_order_def)

lemma image_events_first:
  obtains e es where "image_events env = e # es" "fst e \<le> 10000"
proof -
  have m: "(10000, Timeout) \<in> set (image_events env)"
    by (simp add: image_events_def in_time_order_sorted(2))
  then obtain e es where c: "image_events env = e # es" by (cases "image_events env") auto
  have "sorted (map fst (image_events env))"
    by (simp add: image_events_def in_time_order_sorted(1))
  with c m have "fst e \<le> 10000" by auto
  with c that show ?thesis by blast
qed

lemma imageOnlyHandler_resolves:
  "\<exists>c. snd (imageOnlyHandler env (b, None) e) = Some (fst e, c)"
  by (cases "snd e") (simp_all add: imageOnlyHandler_def resolve_def)

lemma imageOnlyHandler_stays:
  "snd s = Some x \<Longrightarrow> snd (imageOnlyHandler env s e) = Some x"
  by (cases "snd e") (simp_all add: imageOnlyHandler_def resolve_def)

lemma foldl_imageOnlyHandler_stays:
  "snd s = Some x \<Longrightarrow> snd (foldl (imageOnlyHandler env) s es) = Some x"
  by (induction es arbitrary: s) (simp_all add: imageOnlyHandler_stays)

lemma captureRegularImage_resolves:
  "\<exists>t c. captureRegularImage env = Some (t, c) \<and> t \<le> 10000"
proof (cases "setup_ok env")
  case False
  then show ?thesis by (simp add: captureRegularImage_def)
next
  case True
  obtain e es where es: "image_events env = e # es" "fst e \<le> 10000"
    by (rule image_events_first)
  obtain c where c: "snd (imageOnlyHandler env (False, None) e) = Some (fst e, c)"
    using imageOnlyHandler_resolves by blast
  have "snd (foldl (imageOnlyHandler env) (imageOnlyHandler env (False, None) e) es)
          = Some (fst e, c)"
    by (rule foldl_imageOnlyHandler_stays [OF c])
  then show ?thesis using True es by (simp add: captureRegularImage_def)
qed

lemma imageContextHandler_clean:
  assumes "\<not> cross_origin env" "\<not> fst s"
  shows "\<not> fst (imageContextHandler r win env s e)"
    and "snd s = Some x \<Longrightarrow> snd (imageContextHandler r win env s e) = Some x"
    and "snd s = None \<Longrightarrow> \<exists>c. snd (imageContextHandler r win env s e) = Some (fst e, c)"
  using assms
  by (cases "snd e"; simp add: imageContextHandler_def resolve_def Let_def)+

lemma foldl_imageContextHandler_clean:
  assumes "\<not> cross_origin env"
  shows "\<not> fst s \<Longrightarrow> snd s = Some x \<Longrightarrow>
         snd (foldl (imageContextHandler r win env) s es) = Some x"
proof (induction es arbitrary: s)
  case Nil
  then show ?case by simp
next
  case (Cons e es)
  from imageContextHandler_clean(1,2) [OF assms Cons.prems(1)] Cons.prems(2)
  have "\<not> fst (imageContextHandler r win env s e)"
    "snd (imageContextHandler r win env s e) = Some x" by simp_all
  from Cons.IH [OF this] show ?case by simp
qed

lemma captureRegularImageWithContext_resolves:
  assumes "\<not> cross_origin env"
  shows "\<exists>t c. captureRegularImageWithContext r win env = Some (t, c) \<and> t \<le> 10000"
proof (cases "setup_ok env")
  case False
  then show ?thesis by (simp add: captureRegularImageWithContext_def)
next
  case True
  obtain e es where es: "image_events env = e # es" "fst e \<le> 10000"
    by (rule image_events_first)
  have s0: "\<not> fst (False, None :: (nat \<times> capture) option)" by simp
  obtain c where c: "snd (imageContextHandler r win env (False, None) e) = Some (fst e, c)"
    using imageContextHandler_clean(3) [OF assms s0, of r win e] by auto
  have f: "\<not> fst (imageContextHandler r win env (False, None) e)"
    using imageContextHandler_clean(1) [OF assms s0] by simp
  have "snd (foldl (imageContextHandler r win env) (imageContextHandler r win env (False, None) e) es)
          = Some (fst e, c)"
    by (rule foldl_imageContextHandler_clean [OF assms f c])
  then show ?thesis using True es by (simp add: captureRegularImageWithContext_def)
qed

lemma first_resolve_timer:
  "\<exists>t c'. first_resolve (xs @ [(T, c)]) = Some (t, c') \<and> t \<le> T"
  by (induction xs) (auto split: option.splits)

lemma svg_captures_resolve:
  "\<exists>t c. captureSVGAsBase64 src tag env = Some (t, c) \<and> t \<le> 5000"
  "\<exists>t c. captureSVGContextAsBase64 r win src env = Some (t, c) \<and> t \<le> 5000"
proof -
  show "\<exists>t c. captureSVGAsBase64 src tag env = Some (t, c) \<and> t \<le> 5000"
    using first_resolve_timer [of _ 5000 imageFallback]
    by (simp add: captureSVGAsBase64_def svg_calls_def)
  show "\<exists>t c. captureSVGContextAsBase64 r win src env = Some (t, c) \<and> t \<le> 5000"
    using first_resolve_timer [of _ 5000 "svgContextCanvas (svg_rounding env) r win Placeholder"]
    by (simp add: captureSVGContextAsBase64_def svg_context_calls_def)
qed

text \<open>
  Claim C4 at an image of another origin whose first load is still pending after
  2000 ms and whose second load succeeds 100 ms later. The context capture draws the
  second image on its one canvas; from then on every \<open>toDataURL\<close> throws, in the
  handlers of both loads and in the callback of the 10000 ms timer, so \<open>resolve\<close> is
  never called and the promise never settles. The isolated capture of the same image
  resizes its canvas in the fallback and resolves with the placeholder at 2100 ms.
  The lemmas above show that every other capture resolves within its bound.
\<close>

theorem context_capture_never_settles:
  "captureImageWithContext some_rect some_viewport ''https://cdn.example.org/photo.jpg''
      ''IMG'' [] slow_cross_origin no_svg = None \<and>
   captureImageOnly ''https://cdn.example.org/photo.jpg'' ''IMG'' [] slow_cross_origin no_svg
     = Some (2100, imageFallback)"
  by code_simp

end
